theory Spec2Isabelle
  imports Main "HOL-Library.Word"
begin

section \<open>JavaScript strings\<close>

text \<open>
  A JavaScript string is a sequence of UTF-16 code units; the bytes of a response body
  are octets. String literals of the source are written with \<open>js\<close>, which maps each
  ASCII character to its code unit; other characters are given as code units.
\<close>

type_synonym code_unit = "16 word"
type_synonym js_string = "code_unit list"
type_synonym byte = "8 word"

definition js :: "string \<Rightarrow> js_string" where
  "js s = map of_char s"

definition startsWith :: "js_string \<Rightarrow> js_string \<Rightarrow> bool" where
  "startsWith s p = (take (length p) s = p)"

definition slice_from :: "nat \<Rightarrow> js_string \<Rightarrow> js_string" where
  "slice_from n s = drop n s"

definition LF :: code_unit where
  "LF = 0x0A"

definition cons_first :: "code_unit \<Rightarrow> js_string list \<Rightarrow> js_string list" where
  "cons_first c xss = (case xss of [] \<Rightarrow> [[c]] | x # xs \<Rightarrow> (c # x) # xs)"

text \<open>
  \<open>s.split('\n\n')\<close>: the pieces between the non-overlapping occurrences of the
  separator, found from left to right; the result is never empty.
\<close>

fun split_nn :: "js_string \<Rightarrow> js_string list" where
  "split_nn [] = [[]]"
| "split_nn [c] = [[c]]"
| "split_nn (c # d # cs) =
     (if c = LF \<and> d = LF then [] # split_nn cs else cons_first c (split_nn (d # cs)))"

section \<open>Values of the chat domain (types/chat.ts)\<close>

datatype MessageRole = User | Assistant | System

text \<open>
  A message as the store holds it. The optional \<open>id\<close> of the interface is never set
  or read by the code below and has no field here; \<open>image_b64\<close> is the field
  \<open>image\<close>, and \<open>createdAt\<close> is a time stamp.
\<close>

record Message =
  role :: MessageRole
  content :: js_string
  image_b64 :: "js_string option"
  createdAt :: "nat option"

record StreamChunk =
  chunk_content :: js_string
  chunk_done :: bool
  chunk_error :: "js_string option"

text \<open>A thrown JavaScript value, as far as the handlers of this program look at it.\<close>

record js_error =
  instanceof_Error :: bool
  err_name :: js_string
  err_message :: js_string

definition new_Error :: "js_string \<Rightarrow> js_error" where
  "new_Error m = \<lparr>instanceof_Error = True, err_name = js ''Error'', err_message = m\<rparr>"

section \<open>The outside world\<close>

text \<open>
  Every request to a collaborator and every console line is recorded, in order, in a
  trace. A collaborator answers as a function of the trace up to and including the
  request, so that its answers may depend on everything the program did before.
\<close>

datatype call =
    Api_list
  | Api_create js_string
  | Api_delete nat
  | Api_addMessage nat MessageRole js_string "js_string option"
  | Fetch_image "js_string option" js_string
  | Fetch_stream "js_string option" "(MessageRole \<times> js_string) list" js_string "js_string option"
  | Console_error js_string
  | Console_log js_string

text \<open>
  The platform under the stream consumer: \<open>TextDecoder\<close> in streaming mode is a
  machine that takes one byte at a time, keeps a state between calls and emits code
  units; \<open>JSON.parse\<close> either throws (\<open>None\<close>) or returns the value, which the source
  reads through its declared type \<open>StreamChunk\<close>.
\<close>

record 'd platform =
  decoder_init :: 'd
  decoder_step :: "'d \<Rightarrow> byte \<Rightarrow> 'd \<times> js_string"
  JSON_parse :: "js_string \<Rightarrow> StreamChunk option"

fun decode :: "('d \<Rightarrow> byte \<Rightarrow> 'd \<times> js_string) \<Rightarrow> 'd \<Rightarrow> byte list \<Rightarrow> 'd \<times> js_string" where
  "decode step d [] = (d, [])"
| "decode step d (b # bs) =
     (case step d b of (d1, out1) \<Rightarrow>
        (case decode step d1 bs of (d2, out2) \<Rightarrow> (d2, out1 @ out2)))"

section \<open>The stream consumer (lib/api/stream.ts)\<close>

datatype read_result = Chunk "byte list" | Read_rejected js_error

datatype gen_phase = Running | Suspended StreamChunk | Closed

text \<open>
  The async generator \<open>streamChat\<close> between two calls of \<open>next()\<close>: what the reader
  has not delivered yet, the decoder, \<open>buffer\<close>, and the rest of \<open>lines\<close> when it is
  suspended at the \<open>yield\<close> inside the \<open>for\<close> loop. A generator is \<open>Closed\<close> once
  it has returned or thrown, or its consumer has left the loop: the \<open>finally\<close> block
  has released the reader, and every later \<open>next()\<close> returns.
\<close>

record 'd generator =
  phase :: gen_phase
  reader :: "read_result list"
  decoder :: 'd
  buffer :: js_string
  lines :: "js_string list"

datatype gen_event = Yielded StreamChunk | Returned | Thrown js_error

definition closed :: "'d generator \<Rightarrow> 'd generator" where
  "closed g = g\<lparr>phase := Closed\<rparr>"

text \<open>The \<open>for (const line of lines)\<close> loop, up to its next \<open>yield\<close>.\<close>

fun for_lines ::
  "'d platform \<Rightarrow> js_string list \<Rightarrow> call list \<Rightarrow> (StreamChunk \<times> js_string list) option \<times> call list"
where
  "for_lines P [] tr = (None, tr)"
| "for_lines P (line # rest) tr =
     (if startsWith line (js ''data: '') then
        (case JSON_parse P (slice_from 6 line) of
           Some data \<Rightarrow> (Some (data, rest), tr)
         | None \<Rightarrow> for_lines P rest (tr @ [Console_error (js ''Failed to parse SSE data:'')]))
      else for_lines P rest tr)"

text \<open>
  The \<open>while (true)\<close> loop from \<open>reader.read()\<close> up to the next \<open>yield\<close>, the
  \<open>break\<close> at the end of the body, or the rejection of the read. \<open>lines.pop() || ''\<close>
  is the last piece of the split.
\<close>

fun while_read ::
  "'d platform \<Rightarrow> read_result list \<Rightarrow> 'd \<Rightarrow> js_string \<Rightarrow> call list
     \<Rightarrow> gen_event \<times> 'd generator \<times> call list"
where
  "while_read P [] d buf tr =
     (Returned, \<lparr>phase = Closed, reader = [], decoder = d, buffer = buf, lines = []\<rparr>, tr)"
| "while_read P (Read_rejected e # rs) d buf tr =
     (Thrown e, \<lparr>phase = Closed, reader = rs, decoder = d, buffer = buf, lines = []\<rparr>, tr)"
| "while_read P (Chunk v # rs) d buf tr =
     (case decode (decoder_step P) d v of (d', txt) \<Rightarrow>
        (let pieces = split_nn (buf @ txt);
             buffer' = (if pieces = [] then [] else last pieces)
         in case for_lines P (butlast pieces) tr of
              (Some (data, rest), tr') \<Rightarrow>
                (Yielded data,
                 \<lparr>phase = Suspended data, reader = rs, decoder = d', buffer = buffer',
                  lines = rest\<rparr>, tr')
            | (None, tr') \<Rightarrow> while_read P rs d' buffer' tr'))"

text \<open>
  One call of \<open>next()\<close>. Resumed after a \<open>yield\<close>, the generator first tests
  \<open>data.done\<close> and returns; otherwise it goes on with the \<open>for\<close> loop and then the
  \<open>while\<close> loop.
\<close>

definition gen_next ::
  "'d platform \<Rightarrow> 'd generator \<Rightarrow> call list \<Rightarrow> gen_event \<times> 'd generator \<times> call list"
where
  "gen_next P g tr =
     (case phase g of
        Closed \<Rightarrow> (Returned, g, tr)
      | Running \<Rightarrow> while_read P (reader g) (decoder g) (buffer g) tr
      | Suspended data \<Rightarrow>
          if chunk_done data then (Returned, closed g, tr)
          else (case for_lines P (lines g) tr of
                  (Some (data', rest), tr') \<Rightarrow>
                    (Yielded data', g\<lparr>phase := Suspended data', lines := rest\<rparr>, tr')
                | (None, tr') \<Rightarrow> while_read P (reader g) (decoder g) (buffer g) tr'))"

text \<open>\<open>streamChat\<close> up to \<open>reader.read()\<close>: the generator before its first \<open>next()\<close>.\<close>

definition gen_init :: "'d platform \<Rightarrow> read_result list \<Rightarrow> 'd generator" where
  "gen_init P body =
     \<lparr>phase = Running, reader = body, decoder = decoder_init P, buffer = [], lines = []\<rparr>"

subsection \<open>The two loops read as one run\<close>

text \<open>
  The same loops without the suspension at \<open>yield\<close>: the \<open>for\<close> loop over a list of
  pieces gives the events it yields and whether it ended in the \<open>return\<close> after a
  terminal event; the \<open>while\<close> loop gives the events of all rounds.
\<close>

fun run_lines ::
  "'d platform \<Rightarrow> js_string list \<Rightarrow> call list \<Rightarrow> StreamChunk list \<times> bool \<times> call list"
where
  "run_lines P [] tr = ([], False, tr)"
| "run_lines P (line # rest) tr =
     (if startsWith line (js ''data: '') then
        (case JSON_parse P (slice_from 6 line) of
           Some data \<Rightarrow>
             if chunk_done data then ([data], True, tr)
             else (case run_lines P rest tr of (es, stop, tr') \<Rightarrow> (data # es, stop, tr'))
         | None \<Rightarrow> run_lines P rest (tr @ [Console_error (js ''Failed to parse SSE data:'')]))
      else run_lines P rest tr)"

fun run_reads ::
  "'d platform \<Rightarrow> read_result list \<Rightarrow> 'd \<Rightarrow> js_string \<Rightarrow> call list
     \<Rightarrow> StreamChunk list \<times> gen_event \<times> call list"
where
  "run_reads P [] d buf tr = ([], Returned, tr)"
| "run_reads P (Read_rejected e # rs) d buf tr = ([], Thrown e, tr)"
| "run_reads P (Chunk v # rs) d buf tr =
     (case decode (decoder_step P) d v of (d', txt) \<Rightarrow>
        (let pieces = split_nn (buf @ txt);
             buffer' = (if pieces = [] then [] else last pieces)
         in case run_lines P (butlast pieces) tr of
              (es, True, tr') \<Rightarrow> (es, Returned, tr')
            | (es, False, tr') \<Rightarrow>
                (case run_reads P rs d' buffer' tr' of
                   (es', fin, tr'') \<Rightarrow> (es @ es', fin, tr''))))"

text \<open>What a generator in a given state still has to deliver, read with these loops.\<close>

definition run_from ::
  "'d platform \<Rightarrow> 'd generator \<Rightarrow> call list \<Rightarrow> StreamChunk list \<times> gen_event \<times> call list"
where
  "run_from P g tr =
     (case phase g of
        Closed \<Rightarrow> ([], Returned, tr)
      | Running \<Rightarrow> run_reads P (reader g) (decoder g) (buffer g) tr
      | Suspended data \<Rightarrow>
          if chunk_done data then ([], Returned, tr)
          else (case run_lines P (lines g) tr of
                  (es, True, tr') \<Rightarrow> (es, Returned, tr')
                | (es, False, tr') \<Rightarrow>
                    (case run_reads P (reader g) (decoder g) (buffer g) tr' of
                       (es', fin, tr'') \<Rightarrow> (es @ es', fin, tr''))))"

lemma for_lines_shorter:
  "for_lines P ls tr = (Some (data, rest), tr') \<Longrightarrow> length rest < length ls"
  by (induction ls arbitrary: tr)
     (auto split: if_splits option.splits intro: less_SucI)

lemma while_read_shorter:
  "while_read P rs d buf tr = (Yielded c, g', tr') \<Longrightarrow> length (reader g') < length rs"
proof (induction P rs d buf tr rule: while_read.induct)
  case (3 P v rs d buf tr)
  then show ?case
    by (fastforce split: prod.splits option.splits simp: Let_def)
qed simp_all

lemma gen_next_shorter:
  assumes "gen_next P g tr = (Yielded c, g', tr')"
  shows "length (reader g') < length (reader g)
         \<or> (length (reader g') = length (reader g) \<and> length (lines g') < length (lines g))"
proof (cases "phase g")
  case Running
  with assms show ?thesis
    by (auto simp: gen_next_def dest: while_read_shorter)
next
  case (Suspended data)
  with assms show ?thesis
    by (auto simp: gen_next_def split: if_splits prod.splits option.splits
             dest: while_read_shorter for_lines_shorter)
next
  case Closed
  with assms show ?thesis by (simp add: gen_next_def)
qed

text \<open>
  A consumer that calls \<open>next()\<close> until the generator returns or throws: the events
  in the order of their delivery, how the generator ended, and the trace.
\<close>

function drain ::
  "'d platform \<Rightarrow> 'd generator \<Rightarrow> call list \<Rightarrow> StreamChunk list \<times> gen_event \<times> 'd generator \<times> call list"
where
  "drain P g tr =
     (case gen_next P g tr of
        (Yielded c, g', tr') \<Rightarrow>
          (case drain P g' tr' of (cs, fin, g'', tr'') \<Rightarrow> (c # cs, fin, g'', tr''))
      | (Returned, g', tr') \<Rightarrow> ([], Returned, g', tr')
      | (Thrown e, g', tr') \<Rightarrow> ([], Thrown e, g', tr'))"
  by pat_completeness auto
termination
proof (relation "measures [\<lambda>(P, g, tr). length (reader g), \<lambda>(P, g, tr). length (lines g)]")
  show "wf (measures [\<lambda>(P, g, tr). length (reader g), \<lambda>(P, g, tr). length (lines g)])"
    by simp
next
  fix P :: "'d platform" and g tr x y and c :: StreamChunk and z g' tr'
  assume "(y, z) = gen_next P g tr" "(g', tr') = z" "y = Yielded c"
  then have "gen_next P g tr = (Yielded c, g', tr')" by simp
  from gen_next_shorter [OF this]
  show "((P, g', tr'), (P, g, tr))
          \<in> measures [\<lambda>(P, g, tr). length (reader g), \<lambda>(P, g, tr). length (lines g)]"
    by auto
qed

subsection \<open>The fragments of a stream and the events they stand for\<close>

text \<open>
  The complete fragments of a decoded text are the pieces before its last delimiter.
  A fragment is an event when it starts with the prefix and its payload parses; the
  consumer receives events up to and including the first terminal one.
\<close>

definition fragments :: "'d platform \<Rightarrow> byte list \<Rightarrow> js_string list" where
  "fragments P bytes = butlast (split_nn (snd (decode (decoder_step P) (decoder_init P) bytes)))"

definition event_of :: "'d platform \<Rightarrow> js_string \<Rightarrow> StreamChunk option" where
  "event_of P line =
     (if startsWith line (js ''data: '') then JSON_parse P (slice_from 6 line) else None)"

definition events_of :: "'d platform \<Rightarrow> js_string list \<Rightarrow> StreamChunk list" where
  "events_of P ls = List.map_filter (event_of P) ls"

fun upto_done :: "StreamChunk list \<Rightarrow> StreamChunk list" where
  "upto_done [] = []"
| "upto_done (e # es) = (if chunk_done e then [e] else e # upto_done es)"

definition malformed :: "'d platform \<Rightarrow> js_string \<Rightarrow> bool" where
  "malformed P line \<longleftrightarrow> startsWith line (js ''data: '') \<and> JSON_parse P (slice_from 6 line) = None"

section \<open>The services behind \<open>fetch\<close>\<close>

text \<open>
  \<open>interface Conversation\<close> of the storage client (lib/api/conversations.ts): \<open>id\<close>,
  \<open>title\<close>, \<open>created_at\<close> and \<open>updated_at\<close>.
\<close>

record Conversation =
  conv_id :: nat
  title :: js_string
  conv_createdAt :: js_string
  conv_updatedAt :: js_string

text \<open>
  The answer to a request of the storage client, as far as the client reads it:
  \<open>response.ok\<close>, and how \<open>response.json()\<close> settles.
\<close>

record 'a api_response =
  api_ok :: bool
  api_json :: "js_error + 'a"

record ImageGenerateResponse =
  resp_image :: js_string
  resp_prompt :: js_string

text \<open>
  The answer to the image request: with \<open>response.ok\<close>, what \<open>response.json()\<close>
  gives; otherwise what \<open>response.json()\<close> gives for the error body, read at its
  \<open>detail\<close> field.
\<close>

datatype image_http_response =
    Http_ok "js_error + ImageGenerateResponse"
  | Http_not_ok "js_error + js_string option"

record stream_http_response =
  ok :: bool
  status :: nat
  statusText :: js_string
  body :: "read_result list option"

text \<open>
  The collaborators. \<open>fetch\<close> answers the four requests of the storage client and the
  two generation requests, each \<open>fetch\<close> either rejecting (\<open>Inl\<close>) or resolving to a
  response; \<open>localStorage_auth_token\<close> is what \<open>getToken\<close> reads, and \<open>Date_now\<close> is
  the clock behind \<open>new Date()\<close>. A cancellation through the \<open>AbortSignal\<close> handed to
  \<open>fetch\<close> shows as the rejection of the pending \<open>fetch\<close> or \<open>read\<close> with an error
  named \<open>AbortError\<close>.
\<close>

record env =
  fetch_list :: "call list \<Rightarrow> js_error + Conversation list api_response"
  fetch_create :: "call list \<Rightarrow> js_error + Conversation api_response"
  fetch_delete :: "call list \<Rightarrow> js_error + unit api_response"
  fetch_addMessage :: "call list \<Rightarrow> js_error + unit api_response"
  fetch_image :: "call list \<Rightarrow> js_error + image_http_response"
  fetch_stream :: "call list \<Rightarrow> js_error + stream_http_response"
  localStorage_auth_token :: "js_string option"
  Date_now :: "call list \<Rightarrow> nat"

section \<open>The storage client (lib/api/conversations.ts)\<close>

text \<open>
  \<open>conversationsApi\<close>. Each operation sends its request, throws its own error when
  the response is not \<open>ok\<close>, and otherwise returns \<open>response.json()\<close> (\<open>list\<close>,
  \<open>create\<close>) or nothing (\<open>delete\<close>, \<open>addMessage\<close>). The operations give how their promise
  settles and the trace with their request. \<open>create\<close> sends the title
  \<open>title || 'New Chat'\<close>. The fifth operation, \<open>get\<close>, serves \<open>loadConversation\<close> only,
  which no turn calls.
\<close>

definition conversationsApi_list ::
  "env \<Rightarrow> call list \<Rightarrow> (js_error + Conversation list) \<times> call list"
where
  "conversationsApi_list E tr =
     (let tr1 = tr @ [Api_list]
      in case fetch_list E tr1 of
           Inl error \<Rightarrow> (Inl error, tr1)
         | Inr response \<Rightarrow>
             if \<not> api_ok response
             then (Inl (new_Error (js ''Failed to fetch conversations'')), tr1)
             else (api_json response, tr1))"

definition conversationsApi_create ::
  "env \<Rightarrow> js_string option \<Rightarrow> call list \<Rightarrow> (js_error + Conversation) \<times> call list"
where
  "conversationsApi_create E title_in tr =
     (let tr1 = tr @ [Api_create (case title_in of
                                    None \<Rightarrow> js ''New Chat''
                                  | Some t \<Rightarrow> if t = [] then js ''New Chat'' else t)]
      in case fetch_create E tr1 of
           Inl error \<Rightarrow> (Inl error, tr1)
         | Inr response \<Rightarrow>
             if \<not> api_ok response
             then (Inl (new_Error (js ''Failed to create conversation'')), tr1)
             else (api_json response, tr1))"

definition conversationsApi_delete ::
  "env \<Rightarrow> nat \<Rightarrow> call list \<Rightarrow> (js_error + unit) \<times> call list"
where
  "conversationsApi_delete E i tr =
     (let tr1 = tr @ [Api_delete i]
      in case fetch_delete E tr1 of
           Inl error \<Rightarrow> (Inl error, tr1)
         | Inr response \<Rightarrow>
             if \<not> api_ok response
             then (Inl (new_Error (js ''Failed to delete conversation'')), tr1)
             else (Inr (), tr1))"

definition conversationsApi_addMessage ::
  "env \<Rightarrow> nat \<Rightarrow> MessageRole \<Rightarrow> js_string \<Rightarrow> js_string option \<Rightarrow> call list
     \<Rightarrow> (js_error + unit) \<times> call list"
where
  "conversationsApi_addMessage E conversationId role_in content_in image_in tr =
     (let tr1 = tr @ [Api_addMessage conversationId role_in content_in image_in]
      in case fetch_addMessage E tr1 of
           Inl error \<Rightarrow> (Inl error, tr1)
         | Inr response \<Rightarrow>
             if \<not> api_ok response
             then (Inl (new_Error (js ''Failed to add message'')), tr1)
             else (Inr (), tr1))"

section \<open>The conversation store (stores/chatStore.ts)\<close>

record ChatState =
  messages :: "Message list"
  isStreaming :: bool
  currentConversationId :: "nat option"
  conversations :: "Conversation list"
  isLoadingConversations :: bool

type_synonym world = "ChatState \<times> call list"

definition initial_state :: ChatState where
  "initial_state =
     \<lparr>messages = [], isStreaming = False, currentConversationId = None, conversations = [],
      isLoadingConversations = False\<rparr>"

definition addMessage :: "Message \<Rightarrow> ChatState \<Rightarrow> ChatState" where
  "addMessage message s = s\<lparr>messages := messages s @ [message]\<rparr>"

definition setMessages :: "Message list \<Rightarrow> ChatState \<Rightarrow> ChatState" where
  "setMessages ms s = s\<lparr>messages := ms\<rparr>"

definition appendToLastMessage :: "js_string \<Rightarrow> ChatState \<Rightarrow> ChatState" where
  "appendToLastMessage c s =
     (let ms = messages s in
      if length ms > 0 then
        (let lastMessage = ms ! (length ms - 1)
         in s\<lparr>messages := ms[length ms - 1 := lastMessage\<lparr>content := content lastMessage @ c\<rparr>]\<rparr>)
      else s\<lparr>messages := ms\<rparr>)"

definition setLastMessageImage :: "js_string \<Rightarrow> ChatState \<Rightarrow> ChatState" where
  "setLastMessageImage img s =
     (let ms = messages s in
      if length ms > 0 then
        s\<lparr>messages := ms[length ms - 1 := (ms ! (length ms - 1))\<lparr>image_b64 := Some img\<rparr>]\<rparr>
      else s\<lparr>messages := ms\<rparr>)"

definition updateLastMessage :: "js_string \<Rightarrow> ChatState \<Rightarrow> ChatState" where
  "updateLastMessage c s =
     (let ms = messages s in
      if length ms > 0 then
        s\<lparr>messages := ms[length ms - 1 := (ms ! (length ms - 1))\<lparr>content := c\<rparr>]\<rparr>
      else s\<lparr>messages := ms\<rparr>)"

definition setIsStreaming :: "bool \<Rightarrow> ChatState \<Rightarrow> ChatState" where
  "setIsStreaming b s = s\<lparr>isStreaming := b\<rparr>"

definition setConversationId :: "nat option \<Rightarrow> ChatState \<Rightarrow> ChatState" where
  "setConversationId i s = s\<lparr>currentConversationId := i\<rparr>"

definition clearMessages :: "ChatState \<Rightarrow> ChatState" where
  "clearMessages s = s\<lparr>messages := [], currentConversationId := None\<rparr>"

text \<open>\<open>!id\<close> for an id of type \<open>number | null\<close>: \<open>null\<close> and \<open>0\<close> are falsy.\<close>

definition falsy_id :: "nat option \<Rightarrow> bool" where
  "falsy_id i = (case i of None \<Rightarrow> True | Some n \<Rightarrow> n = 0)"

text \<open>
  The asynchronous actions return how their promise settles (\<open>Inl\<close> a rejection) and
  the world they leave.
\<close>

definition loadConversations :: "env \<Rightarrow> world \<Rightarrow> (js_error + unit) \<times> world" where
  "loadConversations E w =
     (case w of (s, tr) \<Rightarrow>
        (let s1 = s\<lparr>isLoadingConversations := True\<rparr>
         in case conversationsApi_list E tr of
              (Inr cs, tr1) \<Rightarrow>
                (Inr (), (s1\<lparr>conversations := cs, isLoadingConversations := False\<rparr>, tr1))
            | (Inl error, tr1) \<Rightarrow>
                (Inr (), (s1\<lparr>isLoadingConversations := False\<rparr>,
                          tr1 @ [Console_error (js ''Failed to load conversations:'')]))))"

definition createConversation :: "env \<Rightarrow> world \<Rightarrow> (js_error + nat) \<times> world" where
  "createConversation E w =
     (case w of (s, tr) \<Rightarrow>
        (case conversationsApi_create E None tr of
           (Inl error, tr1) \<Rightarrow>
             (Inl error, (s, tr1 @ [Console_error (js ''Failed to create conversation:'')]))
         | (Inr conversation, tr1) \<Rightarrow>
             (case loadConversations E (s, tr1) of
                (Inl error, (s2, tr2)) \<Rightarrow>
                  (Inl error, (s2, tr2 @ [Console_error (js ''Failed to create conversation:'')]))
              | (Inr u, (s2, tr2)) \<Rightarrow>
                  (Inr (conv_id conversation),
                   (s2\<lparr>currentConversationId := Some (conv_id conversation), messages := []\<rparr>, tr2)))))"

definition deleteConversation :: "env \<Rightarrow> nat \<Rightarrow> world \<Rightarrow> (js_error + unit) \<times> world" where
  "deleteConversation E i w =
     (case w of (s, tr) \<Rightarrow>
        (case conversationsApi_delete E i tr of
           (Inl error, tr1) \<Rightarrow>
             (Inr (), (s, tr1 @ [Console_error (js ''Failed to delete conversation:'')]))
         | (Inr u, tr1) \<Rightarrow>
             (let s1 = (if currentConversationId s = Some i
                        then s\<lparr>currentConversationId := None, messages := []\<rparr> else s)
              in case loadConversations E (s1, tr1) of
                   (Inl error, (s2, tr2)) \<Rightarrow>
                     (Inr (), (s2, tr2 @ [Console_error (js ''Failed to delete conversation:'')]))
                 | (Inr u, w2) \<Rightarrow> (Inr (), w2))))"

definition saveMessage :: "env \<Rightarrow> Message \<Rightarrow> world \<Rightarrow> (js_error + unit) \<times> world" where
  "saveMessage E message w =
     (case w of (s, tr) \<Rightarrow>
        (let conversationId = currentConversationId s
         in if falsy_id conversationId then (Inr (), w)
            else
              (case conversationsApi_addMessage E (the conversationId) (role message)
                      (content message) (image_b64 message) tr of
                 (Inl error, tr1) \<Rightarrow>
                   (Inr (), (s, tr1 @ [Console_error (js ''Failed to save message:'')]))
               | (Inr u, tr1) \<Rightarrow>
                   (case loadConversations E (s, tr1) of
                      (Inl error, (s2, tr2)) \<Rightarrow>
                        (Inr (), (s2, tr2 @ [Console_error (js ''Failed to save message:'')]))
                    | (Inr u, w2) \<Rightarrow> (Inr (), w2)))))"

section \<open>The generation requests (lib/api/client.ts, image.ts, stream.ts)\<close>

text \<open>\<open>if (token)\<close> sets the header for a token that is neither \<open>null\<close> nor empty.\<close>

definition authorization :: "env \<Rightarrow> js_string option" where
  "authorization E =
     (case localStorage_auth_token E of
        None \<Rightarrow> None
      | Some token \<Rightarrow> if token = [] then None else Some (js ''Bearer '' @ token))"

definition generateImage ::
  "env \<Rightarrow> js_string \<Rightarrow> call list \<Rightarrow> (js_error + ImageGenerateResponse) \<times> call list"
where
  "generateImage E prompt tr =
     (let tr1 = tr @ [Fetch_image (authorization E) prompt]
      in case fetch_image E tr1 of
           Inl error \<Rightarrow> (Inl error, tr1)
         | Inr (Http_not_ok json) \<Rightarrow>
             (let detail = (case json of Inl e \<Rightarrow> Some (js ''Image generation failed'') | Inr d \<Rightarrow> d)
              in (Inl (new_Error (case detail of
                                    None \<Rightarrow> js ''Image generation failed''
                                  | Some d \<Rightarrow> if d = [] then js ''Image generation failed'' else d)),
                  tr1))
         | Inr (Http_ok json) \<Rightarrow> (json, tr1))"

text \<open>\<open>Number.prototype.toString\<close> on a natural number: its decimal digits.\<close>

fun toString :: "nat \<Rightarrow> js_string" where
  "toString n = (if n < 10 then [0x30 + of_nat n] else toString (n div 10) @ [0x30 + of_nat (n mod 10)])"

record StreamChatParams =
  sc_messages :: "Message list"
  sc_model :: "js_string option"
  sc_conversationId :: "js_string option"

text \<open>
  \<open>streamChat\<close> from its first \<open>next()\<close> up to \<open>getReader()\<close>: the request, and the
  two failures before any event.
\<close>

definition streamChat ::
  "'d platform \<Rightarrow> env \<Rightarrow> StreamChatParams \<Rightarrow> call list \<Rightarrow> (js_error + 'd generator) \<times> call list"
where
  "streamChat P E params tr =
     (let model = (case sc_model params of None \<Rightarrow> js ''llama-3.3-70b-versatile'' | Some m \<Rightarrow> m);
          tr1 = tr @ [Fetch_stream (authorization E)
                        (map (\<lambda>m. (role m, content m)) (sc_messages params)) model
                        (sc_conversationId params)]
      in case fetch_stream E tr1 of
           Inl error \<Rightarrow> (Inl error, tr1)
         | Inr response \<Rightarrow>
             if \<not> ok response then
               (Inl (new_Error (js ''Stream failed: '' @ toString (status response) @ js '' ''
                                  @ statusText response)), tr1)
             else (case body response of
                     None \<Rightarrow> (Inl (new_Error (js ''Response body is null'')), tr1)
                   | Some rs \<Rightarrow> (Inr (gen_init P rs), tr1)))"

section \<open>The response orchestrator (hook useStreamingResponse)\<close>

text \<open>
  White space as \<open>trim\<close> and the class \<open>\s\<close> see it. \<open>toLowerCase\<close> is given on the
  letters A to Z; the case tables beyond them are the platform's, the only use of the
  result is the comparison with the ASCII text \<open>/imagine\<close>, and no code unit outside
  A to Z lower-cases to text that matches it. The regular expression
  \<open>/^\/imagine\s*/i\<close> matches at the start of the text only, its letters in either
  case, and \<open>replace_imagine\<close> is \<open>content.replace\<close> with it and the empty text.
\<close>

definition is_whitespace :: "code_unit \<Rightarrow> bool" where
  "is_whitespace u \<longleftrightarrow>
     u = 0x09 \<or> u = 0x0A \<or> u = 0x0B \<or> u = 0x0C \<or> u = 0x0D \<or> u = 0x20 \<or> u = 0xA0
     \<or> u = 0x1680 \<or> (0x2000 \<le> u \<and> u \<le> 0x200A) \<or> u = 0x2028 \<or> u = 0x2029
     \<or> u = 0x202F \<or> u = 0x205F \<or> u = 0x3000 \<or> u = 0xFEFF"

definition trim :: "js_string \<Rightarrow> js_string" where
  "trim s = rev (dropWhile is_whitespace (rev (dropWhile is_whitespace s)))"

definition lower_unit :: "code_unit \<Rightarrow> code_unit" where
  "lower_unit u = (if 0x41 \<le> u \<and> u \<le> 0x5A then u + 0x20 else u)"

definition toLowerCase :: "js_string \<Rightarrow> js_string" where
  "toLowerCase s = map lower_unit s"

definition replace_imagine :: "js_string \<Rightarrow> js_string" where
  "replace_imagine s =
     (if map lower_unit (take 8 s) = js ''/imagine'' then dropWhile is_whitespace (drop 8 s) else s)"

definition usage_warning :: js_string where
  "usage_warning = [0x26A0, 0xFE0F] @ js '' Please provide a prompt after /imagine. Example: `/imagine a cute robot playing guitar`''"

definition generating_text :: js_string where
  "generating_text = [0xD83C, 0xDFA8] @ js '' Generating image...''"

definition heres_your_image :: "js_string \<Rightarrow> js_string" where
  \<open>heres_your_image prompt = [0x2728] @ js '' Here's your image for: "'' @ prompt @ js ''"''\<close>

definition image_failed_text :: js_string where
  "image_failed_text = [0x26A0, 0xFE0F] @ js '' Failed to generate image. Please check your Hugging Face API key and try again.''"

definition error_notice :: js_string where
  "error_notice = [0x0A, 0x0A, 0x26A0, 0xFE0F] @ js '' An error occurred. Please try again.''"

text \<open>\<open>chunk.error\<close> as a condition: present and not empty.\<close>

definition truthy :: "js_string option \<Rightarrow> bool" where
  "truthy x = (case x of None \<Rightarrow> False | Some t \<Rightarrow> t \<noteq> [])"

text \<open>
  The \<open>for await\<close> loop of the text path. Leaving it by \<open>throw\<close> or \<open>break\<close> closes
  the generator. The result is the thrown error or \<open>fullResponse\<close>.
\<close>

function for_await ::
  "'d platform \<Rightarrow> 'd generator \<Rightarrow> world \<Rightarrow> js_string \<Rightarrow> (js_error + js_string) \<times> 'd generator \<times> world"
where
  "for_await P g w fullResponse =
     (case w of (s, tr) \<Rightarrow>
        (case gen_next P g tr of
           (Returned, g', tr') \<Rightarrow> (Inr fullResponse, g', (s, tr'))
         | (Thrown e, g', tr') \<Rightarrow> (Inl e, g', (s, tr'))
         | (Yielded chunk, g', tr') \<Rightarrow>
             if truthy (chunk_error chunk) then
               (Inl (new_Error (the (chunk_error chunk))), closed g', (s, tr'))
             else if chunk_done chunk then (Inr fullResponse, closed g', (s, tr'))
             else for_await P g' (appendToLastMessage (chunk_content chunk) s, tr')
                    (fullResponse @ chunk_content chunk)))"
  by pat_completeness auto
termination
proof (relation "measures [\<lambda>(P, g, w, f). length (reader g), \<lambda>(P, g, w, f). length (lines g)]")
  show "wf (measures [\<lambda>(P, g, w, f). length (reader g), \<lambda>(P, g, w, f). length (lines g)])"
    by simp
next
  fix P :: "'d platform" and g w fullResponse s tr x y and chunk :: StreamChunk and z g' tr'
  assume "(y, z) = gen_next P g tr" "(g', tr') = z" "y = Yielded chunk"
  then have "gen_next P g tr = (Yielded chunk, g', tr')" by simp
  from gen_next_shorter [OF this]
  show "((P, g', (appendToLastMessage (chunk_content chunk) s, tr'), fullResponse @ chunk_content chunk),
         (P, g, w, fullResponse))
          \<in> measures [\<lambda>(P, g, w, f). length (reader g), \<lambda>(P, g, w, f). length (lines g)]"
    by auto
qed

text \<open>
  The image path of \<open>sendMessage\<close>; \<open>imagine_begin\<close> is the part before \<open>try\<close>: the
  user message, its save, the placeholder and the streaming flag. \<open>saveMessage\<close> is
  called without \<open>await\<close>: its request leaves at the call, and what follows in it only
  writes \<open>conversations\<close> and \<open>isLoadingConversations\<close>, which the turn neither reads
  nor writes; the model runs it to its end at the call.
\<close>

definition imagine_begin :: "env \<Rightarrow> js_string \<Rightarrow> world \<Rightarrow> world" where
  "imagine_begin E content_in w =
     (case w of (s, tr) \<Rightarrow>
        (let userMsg = \<lparr>role = User, content = content_in, image_b64 = None,
                        createdAt = Some (Date_now E tr)\<rparr>;
             s1 = addMessage userMsg s
         in case snd (saveMessage E userMsg (s1, tr)) of (s2, tr2) \<Rightarrow>
           (let s3 = addMessage \<lparr>role = Assistant, content = generating_text, image_b64 = None,
                                  createdAt = Some (Date_now E tr2)\<rparr> s2
            in (setIsStreaming True s3, tr2))))"

definition imagine_turn :: "env \<Rightarrow> js_string \<Rightarrow> world \<Rightarrow> (js_error + unit) \<times> world" where
  "imagine_turn E content_in w =
     (case w of (s, tr) \<Rightarrow>
        (let prompt = trim (replace_imagine content_in)
         in if prompt = [] then
              (Inr (), (addMessage \<lparr>role = Assistant, content = usage_warning, image_b64 = None,
                                    createdAt = Some (Date_now E tr)\<rparr> s, tr))
            else
              (case imagine_begin E content_in w of (s4, tr2) \<Rightarrow>
                 (case generateImage E prompt tr2 of
                    (Inr result, tr3) \<Rightarrow>
                      (let assistantMsg = \<lparr>role = Assistant, content = heres_your_image prompt,
                                           image_b64 = Some (resp_image result),
                                           createdAt = Some (Date_now E tr3)\<rparr>;
                           s5 = updateLastMessage (content assistantMsg) s4;
                           s6 = setLastMessageImage (resp_image result) s5
                       in case snd (saveMessage E assistantMsg (s6, tr3)) of (s7, tr7) \<Rightarrow>
                            (Inr (), (setIsStreaming False s7, tr7)))
                  | (Inl error, tr3) \<Rightarrow>
                      (Inr (), (setIsStreaming False (updateLastMessage image_failed_text s4),
                                tr3 @ [Console_error (js ''Image generation error:'')]))))))"

text \<open>\<open>convId?.toString() || null\<close>\<close>

definition conversationId_argument :: "nat option \<Rightarrow> js_string option" where
  "conversationId_argument convId = (case convId of None \<Rightarrow> None | Some n \<Rightarrow> Some (toString n))"

text \<open>
  The text path of \<open>sendMessage\<close>, the regular chat flow. \<open>chat_begin\<close> is the part
  before \<open>try\<close>: the user message, its save, the empty assistant message and the
  streaming flag. The \<open>AbortController\<close> created there and released in \<open>finally\<close>
  has no component of its own: \<open>stopGeneration\<close> calls its \<open>abort()\<close>, and the signal
  acts through the answers of the stream request.
\<close>

definition chat_begin :: "env \<Rightarrow> js_string \<Rightarrow> world \<Rightarrow> world" where
  "chat_begin E content_in w =
     (case w of (s, tr) \<Rightarrow>
        (let userMessage = \<lparr>role = User, content = content_in, image_b64 = None,
                            createdAt = Some (Date_now E tr)\<rparr>;
             s1 = addMessage userMessage s
         in case snd (saveMessage E userMessage (s1, tr)) of (s2, tr2) \<Rightarrow>
           (let assistantMessage = \<lparr>role = Assistant, content = [], image_b64 = None,
                                    createdAt = Some (Date_now E tr2)\<rparr>;
                s3 = addMessage assistantMessage s2
            in (setIsStreaming True s3, tr2))))"

text \<open>The argument of \<open>streamChat\<close> in the loop header.\<close>

definition stream_request :: "nat option \<Rightarrow> ChatState \<Rightarrow> StreamChatParams" where
  "stream_request convId s =
     (let currentMessages = messages s
      in \<lparr>sc_messages = butlast currentMessages, sc_model = None,
          sc_conversationId = conversationId_argument convId\<rparr>)"

text \<open>
  The statement \<open>for await (const chunk of streamChat({...})) {...}\<close>: the request, then
  the loop; it throws or leaves \<open>fullResponse\<close>.
\<close>

definition pull_stream ::
  "'d platform \<Rightarrow> env \<Rightarrow> StreamChatParams \<Rightarrow> world \<Rightarrow> (js_error + js_string) \<times> world"
where
  "pull_stream P E params w =
     (case w of (s, tr) \<Rightarrow>
        (case streamChat P E params tr of
           (Inl error, tr3) \<Rightarrow> (Inl error, (s, tr3))
         | (Inr g, tr3) \<Rightarrow> (case for_await P g (s, tr3) [] of (r, g', w') \<Rightarrow> (r, w'))))"

definition chat_turn ::
  "'d platform \<Rightarrow> env \<Rightarrow> js_string \<Rightarrow> nat option \<Rightarrow> world \<Rightarrow> (js_error + unit) \<times> world"
where
  "chat_turn P E content_in convId w =
     (case chat_begin E content_in w of (s4, tr2) \<Rightarrow>
        (let tried =
               (case pull_stream P E (stream_request convId s4) (s4, tr2) of
                  (Inl error, w') \<Rightarrow> (Inl error, w')
                | (Inr fullResponse, w') \<Rightarrow>
                    (Inr (),
                     if fullResponse \<noteq> [] then
                       snd (saveMessage E \<lparr>role = Assistant, content = fullResponse,
                                           image_b64 = None,
                                           createdAt = Some (Date_now E (snd w'))\<rparr> w')
                     else w'));
             caught =
               (case tried of
                  (Inr u, w5) \<Rightarrow> w5
                | (Inl error, (s5, tr5)) \<Rightarrow>
                    if instanceof_Error error \<and> err_name error = js ''AbortError'' then
                      (s5, tr5 @ [Console_log (js ''Stream aborted by user'')])
                    else
                      (appendToLastMessage error_notice s5, tr5 @ [Console_error (js ''Stream error:'')]))
         in (Inr (), (setIsStreaming False (fst caught), snd caught))))"

text \<open>
  \<open>sendMessage\<close>. The hook reads \<open>currentConversationId\<close> from the store at its last
  render; the model reads it from the store at the call. \<open>ensure_conversation\<close> is its
  first step and gives \<open>convId\<close>.
\<close>

definition ensure_conversation :: "env \<Rightarrow> world \<Rightarrow> nat option \<times> world" where
  "ensure_conversation E w =
     (let convId = currentConversationId (fst w)
      in if falsy_id convId then
           (case createConversation E w of
              (Inr i, w1) \<Rightarrow> (Some i, w1)
            | (Inl error, (s1, tr1)) \<Rightarrow>
                (convId, (s1, tr1 @ [Console_error (js ''Failed to create conversation:'')])))
         else (convId, w))"

definition isImageCommand :: "js_string \<Rightarrow> bool" where
  "isImageCommand content_in = startsWith (toLowerCase (trim content_in)) (js ''/imagine'')"

definition sendMessage ::
  "'d platform \<Rightarrow> env \<Rightarrow> js_string \<Rightarrow> world \<Rightarrow> (js_error + unit) \<times> world"
where
  "sendMessage P E content_in w =
     (case ensure_conversation E w of
        (convId, w1) \<Rightarrow>
          if isImageCommand content_in then imagine_turn E content_in w1
          else chat_turn P E content_in convId w1)"

subsection \<open>The turn seen from the events of its stream\<close>

text \<open>
  What a consumer that pulls \<open>streamChat(params)\<close> to its end receives: the events,
  how the stream ended (a failure before the first event included), and the trace.
\<close>

definition stream_run ::
  "'d platform \<Rightarrow> env \<Rightarrow> StreamChatParams \<Rightarrow> call list \<Rightarrow> StreamChunk list \<times> gen_event \<times> call list"
where
  "stream_run P E params tr =
     (case streamChat P E params tr of
        (Inl error, tr1) \<Rightarrow> ([], Thrown error, tr1)
      | (Inr g, tr1) \<Rightarrow> (case drain P g tr1 of (es, fin, g', tr2) \<Rightarrow> (es, fin, tr2)))"

text \<open>The body of the \<open>for await\<close> loop applied to a sequence of events and its end.\<close>

fun consume ::
  "StreamChunk list \<Rightarrow> gen_event \<Rightarrow> ChatState \<Rightarrow> js_string \<Rightarrow> (js_error + js_string) \<times> ChatState"
where
  "consume [] fin s fullResponse =
     (case fin of Thrown e \<Rightarrow> (Inl e, s) | Returned \<Rightarrow> (Inr fullResponse, s)
      | Yielded c \<Rightarrow> (Inr fullResponse, s))"
| "consume (chunk # rest) fin s fullResponse =
     (if truthy (chunk_error chunk) then (Inl (new_Error (the (chunk_error chunk))), s)
      else if chunk_done chunk then (Inr fullResponse, s)
      else consume rest fin (appendToLastMessage (chunk_content chunk) s)
             (fullResponse @ chunk_content chunk))"

text \<open>An event that only carries text: no error and not terminal.\<close>

definition plain :: "StreamChunk \<Rightarrow> bool" where
  "plain c \<longleftrightarrow> \<not> truthy (chunk_error c) \<and> \<not> chunk_done c"

definition is_AbortError :: "js_error \<Rightarrow> bool" where
  "is_AbortError e \<longleftrightarrow> instanceof_Error e \<and> err_name e = js ''AbortError''"

text \<open>
  The requests of a turn in a trace: the saves of messages and the two generation
  requests, in the order in which they were issued.
\<close>

definition is_request :: "call \<Rightarrow> bool" where
  "is_request c =
     (case c of
        Api_addMessage i r t img \<Rightarrow> True
      | Fetch_image auth prompt \<Rightarrow> True
      | Fetch_stream auth ms model cid \<Rightarrow> True
      | _ \<Rightarrow> False)"

definition requests :: "call list \<Rightarrow> call list" where
  "requests tr = filter is_request tr"

text \<open>The saves of messages among them: what a turn asks the storage to persist.\<close>

definition is_save :: "call \<Rightarrow> bool" where
  "is_save c = (case c of Api_addMessage i r t img \<Rightarrow> True | _ \<Rightarrow> False)"

definition saves :: "call list \<Rightarrow> call list" where
  "saves tr = filter is_save tr"

text \<open>The part of the store that a turn works on is the same in two states.\<close>

definition same_chat :: "ChatState \<Rightarrow> ChatState \<Rightarrow> bool" where
  "same_chat s s' \<longleftrightarrow>
     messages s' = messages s \<and> isStreaming s' = isStreaming s
     \<and> currentConversationId s' = currentConversationId s"

text \<open>The stream request of the text path, as \<open>streamChat\<close> sends it.\<close>

definition stream_call :: "env \<Rightarrow> StreamChatParams \<Rightarrow> call" where
  "stream_call E params =
     Fetch_stream (authorization E) (map (\<lambda>m. (role m, content m)) (sc_messages params))
       (case sc_model params of None \<Rightarrow> js ''llama-3.3-70b-versatile'' | Some m \<Rightarrow> m)
       (sc_conversationId params)"

section \<open>Sample data\<close>

text \<open>
  A platform for the worked examples: the decoder maps each byte below 128 to the same
  code unit, as UTF-8 does, and \<open>sample_JSON_parse\<close> is \<open>JSON.parse\<close> on the payloads
  the examples use (three well-formed events and text that is not JSON).
\<close>

definition ev_Hel :: StreamChunk where
  "ev_Hel = \<lparr>chunk_content = js ''Hel'', chunk_done = False, chunk_error = None\<rparr>"

definition ev_lo :: StreamChunk where
  "ev_lo = \<lparr>chunk_content = js ''lo'', chunk_done = False, chunk_error = None\<rparr>"

definition ev_done :: StreamChunk where
  "ev_done = \<lparr>chunk_content = [], chunk_done = True, chunk_error = None\<rparr>"

definition json_Hel :: js_string where
  \<open>json_Hel = js ''{"content":"Hel","done":false}''\<close>

definition json_lo :: js_string where
  \<open>json_lo = js ''{"content":"lo","done":false}''\<close>

definition json_done :: js_string where
  \<open>json_done = js ''{"content":"","done":true}''\<close>

definition json_truncated :: js_string where
  \<open>json_truncated = js ''{"content":"Hel''\<close>

definition sample_JSON_parse :: "js_string \<Rightarrow> StreamChunk option" where
  "sample_JSON_parse s =
     (if s = json_Hel then Some ev_Hel
      else if s = json_lo then Some ev_lo
      else if s = json_done then Some ev_done
      else None)"

definition sample_platform :: "unit platform" where
  "sample_platform =
     \<lparr>decoder_init = (), decoder_step = (\<lambda>d b. (d, [ucast b])),
      JSON_parse = sample_JSON_parse\<rparr>"

text \<open>Response bodies as the server writes them: blocks separated by a blank line.\<close>

definition utf8 :: "string \<Rightarrow> byte list" where
  "utf8 s = map of_char s"

definition wire_done_truncated_lo :: "byte list" where
  \<open>wire_done_truncated_lo = utf8
     ''data: {"content":"","done":true}\<newline>\<newline>data: {"content":"Hel\<newline>\<newline>data: {"content":"lo","done":false}\<newline>\<newline>''\<close>

definition wire_Hel_truncated_lo :: "byte list" where
  \<open>wire_Hel_truncated_lo = utf8
     ''data: {"content":"Hel","done":false}\<newline>\<newline>data: {"content":"Hel\<newline>\<newline>data: {"content":"lo","done":false}\<newline>\<newline>''\<close>

definition wire_done_lo :: "byte list" where
  \<open>wire_done_lo = utf8
     ''data: {"content":"","done":true}\<newline>\<newline>data: {"content":"lo","done":false}\<newline>\<newline>''\<close>

definition wire_Hel_lo_done :: "byte list" where
  \<open>wire_Hel_lo_done = utf8
     ''data: {"content":"Hel","done":false}\<newline>\<newline>data: {"content":"lo","done":false}\<newline>\<newline>data: {"content":"","done":true}\<newline>\<newline>''\<close>

text \<open>
  A generator whose first chunk holds the terminal event and one more block, with a
  second chunk queued, and its state after the first \<open>next()\<close>.
\<close>

definition g_done_lo :: "unit generator" where
  "g_done_lo = gen_init sample_platform [Chunk wire_done_lo, Chunk wire_Hel_lo_done]"

definition g_after_done :: "unit generator" where
  "g_after_done =
     \<lparr>phase = Suspended ev_done, reader = [Chunk wire_Hel_lo_done], decoder = (),
      buffer = [], lines = [js ''data: '' @ json_lo]\<rparr>"

text \<open>What the platform raises when a request fails and when a signal is aborted.\<close>

definition network_error :: js_error where
  "network_error = \<lparr>instanceof_Error = True, err_name = js ''TypeError'', err_message = js ''Failed to fetch''\<rparr>"

definition abort_error :: js_error where
  "abort_error =
     \<lparr>instanceof_Error = True, err_name = js ''AbortError'',
      err_message = js ''signal is aborted without reason''\<rparr>"

definition conversation_7 :: Conversation where
  "conversation_7 =
     \<lparr>conv_id = 7, title = js ''New Chat'', conv_createdAt = js ''2025-01-01T00:00:00'',
      conv_updatedAt = js ''2025-01-01T00:00:00''\<rparr>"

definition cat_image :: ImageGenerateResponse where
  "cat_image = \<lparr>resp_image = js ''aGVsbG8='', resp_prompt = js ''a cat''\<rparr>"

definition wire_Hel :: "byte list" where
  \<open>wire_Hel = utf8 ''data: {"content":"Hel","done":false}\<newline>\<newline>''\<close>

text \<open>Every collaborator answers, and the stream carries the three events in one chunk.\<close>

definition canned_env :: env where
  "canned_env =
     \<lparr>fetch_list = (\<lambda>tr. Inr \<lparr>api_ok = True, api_json = Inr [conversation_7]\<rparr>),
      fetch_create = (\<lambda>tr. Inr \<lparr>api_ok = True, api_json = Inr conversation_7\<rparr>),
      fetch_delete = (\<lambda>tr. Inr \<lparr>api_ok = True, api_json = Inr ()\<rparr>),
      fetch_addMessage = (\<lambda>tr. Inr \<lparr>api_ok = True, api_json = Inr ()\<rparr>),
      fetch_image = (\<lambda>tr. Inr (Http_ok (Inr cat_image))),
      fetch_stream = (\<lambda>tr. Inr \<lparr>ok = True, status = 200, statusText = js ''OK'',
                                  body = Some [Chunk wire_Hel_lo_done]\<rparr>),
      localStorage_auth_token = None,
      Date_now = length\<rparr>"

text \<open>The storage service is unreachable; the generation services answer.\<close>

definition storage_down_env :: env where
  "storage_down_env =
     canned_env\<lparr>fetch_list := (\<lambda>tr. Inl network_error),
                 fetch_create := (\<lambda>tr. Inl network_error),
                 fetch_delete := (\<lambda>tr. Inl network_error),
                 fetch_addMessage := (\<lambda>tr. Inl network_error)\<rparr>"

text \<open>The stream is cancelled while the second read is pending.\<close>

definition cancelled_env :: env where
  "cancelled_env =
     canned_env\<lparr>fetch_stream := (\<lambda>tr. Inr \<lparr>ok = True, status = 200, statusText = js ''OK'',
                                  body = Some [Chunk wire_Hel, Read_rejected abort_error]\<rparr>)\<rparr>"

definition with_conversation :: "nat \<Rightarrow> ChatState" where
  "with_conversation i = initial_state\<lparr>currentConversationId := Some i\<rparr>"

text \<open>Messages, stores and intermediate worlds of the sample turns.\<close>

definition hello_message :: Message where
  "hello_message = \<lparr>role = Assistant, content = js ''Hello'', image_b64 = None, createdAt = Some 0\<rparr>"

definition two_messages :: ChatState where
  "two_messages =
     \<lparr>messages = [\<lparr>role = User, content = js ''hi'', image_b64 = None, createdAt = None\<rparr>,
                  hello_message],
      isStreaming = False, currentConversationId = Some 7, conversations = [],
      isLoadingConversations = False\<rparr>"

definition hi_cancelled :: world where
  "hi_cancelled = chat_begin cancelled_env (js ''hi'') (with_conversation 3, [])"

definition hi_down :: world where
  "hi_down = chat_begin storage_down_env (js ''hi'')
               (snd (ensure_conversation storage_down_env (initial_state, [])))"

definition hi_canned :: world where
  "hi_canned = chat_begin canned_env (js ''hi'') (with_conversation 3, [])"

definition cat_begin :: world where
  "cat_begin = imagine_begin canned_env (js ''/imagine a cat'') (with_conversation 3, [])"

declare drain.simps [simp del]

section \<open>Properties of the stream consumer\<close>

subsection \<open>Splitting and decoding piecewise\<close>

lemma split_nn_nonempty: "split_nn s \<noteq> []"
  by (induction s rule: split_nn.induct) (auto simp: cons_first_def split: list.splits)

lemma split_nn_single: "split_nn s = [x] \<Longrightarrow> x = s"
proof (induction s arbitrary: x rule: split_nn.induct)
  case (3 c d cs)
  show ?case
  proof (cases "c = LF \<and> d = LF")
    case True
    with 3(3) show ?thesis by (simp add: split_nn_nonempty)
  next
    case False
    with 3(3) obtain y where "split_nn (d # cs) = [y]" "x = c # y"
      using split_nn_nonempty [of "d # cs"]
      by (cases "split_nn (d # cs)") (auto simp: cons_first_def)
    with 3(2) [OF False] show ?thesis by simp
  qed
qed simp_all

lemma split_nn_append:
  "split_nn (a @ b) = butlast (split_nn a) @ split_nn (last (split_nn a) @ b)"
proof (induction a rule: split_nn.induct)
  case 1
  then show ?case by simp
next
  case (2 c)
  then show ?case by simp
next
  case (3 c d cs)
  show ?case
  proof (cases "c = LF \<and> d = LF")
    case True
    with 3 show ?thesis by (simp add: split_nn_nonempty)
  next
    case False
    have unfold_ab: "split_nn ((c # d # cs) @ b) = cons_first c (split_nn ((d # cs) @ b))"
      using False by auto
    have unfold_a: "split_nn (c # d # cs) = cons_first c (split_nn (d # cs))"
      using False by auto
    have ih: "split_nn ((d # cs) @ b)
                = butlast (split_nn (d # cs)) @ split_nn (last (split_nn (d # cs)) @ b)"
      using 3(2) [OF False] .
    obtain x xs where sp: "split_nn (d # cs) = x # xs"
      using split_nn_nonempty [of "d # cs"] by (cases "split_nn (d # cs)") auto
    show ?thesis
    proof (cases xs)
      case Nil
      with sp have x: "x = d # cs" using split_nn_single by blast
      have "butlast (split_nn (c # d # cs)) = []" "last (split_nn (c # d # cs)) = c # d # cs"
        using unfold_a sp Nil x by (simp_all add: cons_first_def)
      then show ?thesis by simp
    next
      case (Cons y ys)
      have "butlast (split_nn (c # d # cs)) = (c # x) # butlast xs"
           "last (split_nn (c # d # cs)) = last xs"
        using unfold_a sp Cons by (simp_all add: cons_first_def)
      moreover have "split_nn ((d # cs) @ b) = x # butlast xs @ split_nn (last xs @ b)"
        using ih sp Cons by simp
      ultimately show ?thesis
        unfolding unfold_ab by (simp add: cons_first_def)
    qed
  qed
qed

lemma decode_append:
  "decode step d (a @ b) =
     (case decode step d a of (d1, o1) \<Rightarrow>
        (case decode step d1 b of (d2, o2) \<Rightarrow> (d2, o1 @ o2)))"
  by (induction a arbitrary: d) (auto split: prod.splits)

lemma run_lines_append:
  "run_lines P (xs @ ys) tr =
     (case run_lines P xs tr of
        (es, True, tr') \<Rightarrow> (es, True, tr')
      | (es, False, tr') \<Rightarrow>
          (case run_lines P ys tr' of (es', stop, tr'') \<Rightarrow> (es @ es', stop, tr'')))"
  by (induction xs arbitrary: tr) (auto split: prod.splits option.splits bool.splits)

lemma split_nn_last_single: "split_nn (last (split_nn s)) = [last (split_nn s)]"
proof (induction s rule: split_nn.induct)
  case (3 c d cs)
  show ?case
  proof (cases "c = LF \<and> d = LF")
    case True
    with 3(1) show ?thesis by (simp add: split_nn_nonempty)
  next
    case False
    then have unfold_a: "split_nn (c # d # cs) = cons_first c (split_nn (d # cs))"
      by auto
    obtain x xs where sp: "split_nn (d # cs) = x # xs"
      using split_nn_nonempty [of "d # cs"] by (cases "split_nn (d # cs)") auto
    show ?thesis
    proof (cases xs)
      case Nil
      with sp have "x = d # cs" using split_nn_single by blast
      with sp Nil unfold_a have "split_nn (c # d # cs) = [c # d # cs]"
        by (simp add: cons_first_def)
      then show ?thesis by simp
    next
      case (Cons y ys)
      with sp unfold_a have "last (split_nn (c # d # cs)) = last (split_nn (d # cs))"
        by (simp add: cons_first_def)
      with 3(2) [OF False] show ?thesis by simp
    qed
  qed
qed simp_all

lemma run_reads_chunks:
  assumes "split_nn buf = [buf]"
  shows "run_reads P (map Chunk chunks) d buf tr =
           (case run_lines P (butlast (split_nn (buf @ snd (decode (decoder_step P) d (concat chunks))))) tr
            of (es, stop, tr') \<Rightarrow> (es, Returned, tr'))"
  using assms
proof (induction chunks arbitrary: d buf tr)
  case Nil
  then show ?case by simp
next
  case (Cons v chunks)
  obtain d' t1 where dv: "decode (decoder_step P) d v = (d', t1)"
    by (cases "decode (decoder_step P) d v")
  obtain d2 t2 where dr: "decode (decoder_step P) d' (concat chunks) = (d2, t2)"
    by (cases "decode (decoder_step P) d' (concat chunks)")
  define pieces where "pieces = split_nn (buf @ t1)"
  define buffer' where "buffer' = last pieces"
  have ne: "pieces \<noteq> []" by (simp add: pieces_def split_nn_nonempty)
  have single: "split_nn buffer' = [buffer']"
    by (simp add: buffer'_def pieces_def split_nn_last_single)
  have whole: "snd (decode (decoder_step P) d (v @ concat chunks)) = t1 @ t2"
    by (simp add: decode_append dv dr)
  have "split_nn (buf @ t1 @ t2) = butlast pieces @ split_nn (buffer' @ t2)"
    using split_nn_append [of "buf @ t1" t2] by (simp add: pieces_def buffer'_def)
  then have bl: "butlast (split_nn (buf @ t1 @ t2))
                   = butlast pieces @ butlast (split_nn (buffer' @ t2))"
    by (simp add: butlast_append split_nn_nonempty)
  have ih: "run_reads P (map Chunk chunks) d' buffer' t =
              (case run_lines P (butlast (split_nn (buffer' @ t2))) t
               of (es, stop, tr') \<Rightarrow> (es, Returned, tr'))" for t
    using Cons.IH [OF single, of d' t] by (simp add: dr)
  obtain es stop tr1 where rl: "run_lines P (butlast pieces) tr = (es, stop, tr1)"
    by (cases "run_lines P (butlast pieces) tr")
  have lhs: "run_reads P (map Chunk (v # chunks)) d buf tr =
               (if stop then (es, Returned, tr1)
                else (case run_lines P (butlast (split_nn (buffer' @ t2))) tr1
                      of (es', stop', tr') \<Rightarrow> (es @ es', Returned, tr')))"
    using ne rl by (simp add: dv Let_def ih flip: pieces_def buffer'_def split: prod.splits)
  have rhs: "run_lines P (butlast (split_nn (buf @ t1 @ t2))) tr =
               (if stop then (es, True, tr1)
                else (case run_lines P (butlast (split_nn (buffer' @ t2))) tr1
                      of (es', stop', tr') \<Rightarrow> (es @ es', stop', tr')))"
    by (simp add: bl run_lines_append rl)
  show ?case
    unfolding lhs by (simp add: whole rhs split: prod.splits)
qed

lemma for_lines_None_run:
  "for_lines P ls tr = (None, tr') \<Longrightarrow> run_lines P ls tr = ([], False, tr')"
  by (induction ls arbitrary: tr) (auto split: if_splits option.splits)

lemma for_lines_Some_run:
  "for_lines P ls tr = (Some (data, rest), tr') \<Longrightarrow>
   run_lines P ls tr =
     (if chunk_done data then ([data], True, tr')
      else (case run_lines P rest tr' of (es, stop, t) \<Rightarrow> (data # es, stop, t)))"
  by (induction ls arbitrary: tr) (auto split: if_splits option.splits)

lemma while_read_Returned_run:
  "while_read P rs d buf tr = (Returned, g', tr') \<Longrightarrow>
   run_reads P rs d buf tr = ([], Returned, tr')"
proof (induction P rs d buf tr rule: while_read.induct)
  case (3 P v rs d buf tr)
  then show ?case
    by (auto simp: Let_def split: prod.splits option.splits dest!: for_lines_None_run)
qed simp_all

lemma while_read_Thrown_run:
  "while_read P rs d buf tr = (Thrown e, g', tr') \<Longrightarrow>
   run_reads P rs d buf tr = ([], Thrown e, tr')"
proof (induction P rs d buf tr rule: while_read.induct)
  case (3 P v rs d buf tr)
  then show ?case
    by (auto simp: Let_def split: prod.splits option.splits dest!: for_lines_None_run)
qed simp_all

lemma while_read_Yielded_run:
  "while_read P rs d buf tr = (Yielded c, g', tr') \<Longrightarrow>
   run_reads P rs d buf tr =
     (case run_from P g' tr' of (es, fin, t) \<Rightarrow> (c # es, fin, t))"
proof (induction P rs d buf tr rule: while_read.induct)
  case (3 P v rs d buf tr)
  obtain d' t1 where dv: "decode (decoder_step P) d v = (d', t1)"
    by (cases "decode (decoder_step P) d v")
  let ?pieces = "split_nn (buf @ t1)"
  let ?buffer' = "if ?pieces = [] then [] else last ?pieces"
  obtain r tr1 where fl: "for_lines P (butlast ?pieces) tr = (r, tr1)"
    by (cases "for_lines P (butlast ?pieces) tr")
  show ?case
  proof (cases r)
    case None
    with 3(2) dv fl have wr: "while_read P rs d' ?buffer' tr1 = (Yielded c, g', tr')"
      by (simp add: Let_def)
    have "run_reads P rs d' ?buffer' tr1 =
            (case run_from P g' tr' of (es, fin, t) \<Rightarrow> (c # es, fin, t))"
      using 3(1) [OF dv [symmetric] refl refl fl [symmetric] _ wr] None by simp
    moreover have "run_lines P (butlast ?pieces) tr = ([], False, tr1)"
      using fl None by (simp add: for_lines_None_run)
    ultimately show ?thesis
      by (simp add: dv Let_def)
  next
    case (Some a)
    obtain data rest where a: "a = (data, rest)" by (cases a)
    with 3(2) dv fl Some have
      g': "g' = \<lparr>phase = Suspended data, reader = rs, decoder = d', buffer = ?buffer',
                 lines = rest\<rparr>" and c: "c = data" and t: "tr' = tr1"
      by (auto simp: Let_def)
    have "run_lines P (butlast ?pieces) tr =
            (if chunk_done data then ([data], True, tr1)
             else (case run_lines P rest tr1 of (es, stop, t) \<Rightarrow> (data # es, stop, t)))"
      using fl Some a by (simp add: for_lines_Some_run)
    then show ?thesis
      by (simp add: dv Let_def g' c t run_from_def split: prod.splits bool.splits)
  qed
qed simp_all

lemma gen_next_Returned_run:
  "gen_next P g tr = (Returned, g', tr') \<Longrightarrow> run_from P g tr = ([], Returned, tr')"
  by (cases "phase g")
     (auto simp: gen_next_def run_from_def split: if_splits prod.splits option.splits
           dest!: for_lines_None_run while_read_Returned_run)

lemma gen_next_Thrown_run:
  "gen_next P g tr = (Thrown e, g', tr') \<Longrightarrow> run_from P g tr = ([], Thrown e, tr')"
  by (cases "phase g")
     (auto simp: gen_next_def run_from_def split: if_splits prod.splits option.splits
           dest!: for_lines_None_run while_read_Thrown_run)

lemma gen_next_Yielded_run:
  assumes "gen_next P g tr = (Yielded c, g', tr')"
  shows "run_from P g tr = (case run_from P g' tr' of (es, fin, t) \<Rightarrow> (c # es, fin, t))"
proof (cases "phase g")
  case Running
  with assms show ?thesis
    by (simp add: gen_next_def run_from_def while_read_Yielded_run)
next
  case (Suspended data)
  with assms have nd: "\<not> chunk_done data"
    by (auto simp: gen_next_def closed_def split: if_splits)
  obtain r tr1 where fl: "for_lines P (lines g) tr = (r, tr1)"
    by (cases "for_lines P (lines g) tr")
  show ?thesis
  proof (cases r)
    case None
    with assms Suspended nd fl
    have "while_read P (reader g) (decoder g) (buffer g) tr1 = (Yielded c, g', tr')"
      by (simp add: gen_next_def)
    from while_read_Yielded_run [OF this] for_lines_None_run [of P "lines g" tr tr1]
    show ?thesis
      using Suspended nd fl None by (simp add: run_from_def)
  next
    case (Some a)
    obtain data' rest where a: "a = (data', rest)" by (cases a)
    with assms Suspended nd fl Some
    have g': "g' = g\<lparr>phase := Suspended data', lines := rest\<rparr>" and "c = data'" "tr' = tr1"
      by (auto simp: gen_next_def)
    with for_lines_Some_run [of P "lines g" tr data' rest tr1] fl Some a
    show ?thesis
      using Suspended nd
      by (simp add: run_from_def split: prod.splits bool.splits)
  qed
next
  case Closed
  with assms show ?thesis by (simp add: gen_next_def)
qed

lemma drain_run_from:
  "(case drain P g tr of (es, fin, g', tr') \<Rightarrow> (es, fin, tr')) = run_from P g tr"
proof (induction P g tr rule: drain.induct)
  case (1 P g tr)
  obtain ev g1 tr1 where gn: "gen_next P g tr = (ev, g1, tr1)"
    by (cases "gen_next P g tr")
  show ?case
  proof (cases ev)
    case (Yielded c)
    with gn have y: "gen_next P g tr = (Yielded c, g1, tr1)" by simp
    obtain es fin g2 tr2 where d1: "drain P g1 tr1 = (es, fin, g2, tr2)"
      by (cases "drain P g1 tr1")
    have ih: "run_from P g1 tr1 = (es, fin, tr2)"
      using 1 [OF y [symmetric] refl refl] d1 by simp
    have "drain P g tr = (c # es, fin, g2, tr2)"
      by (subst drain.simps) (simp add: y d1)
    then show ?thesis
      using gen_next_Yielded_run [OF y] ih by simp
  next
    case Returned
    with gn have "drain P g tr = ([], Returned, g1, tr1)"
      by (subst drain.simps) simp
    with gn Returned show ?thesis
      by (simp add: gen_next_Returned_run)
  next
    case (Thrown e)
    with gn have "drain P g tr = ([], Thrown e, g1, tr1)"
      by (subst drain.simps) simp
    with gn Thrown show ?thesis
      by (simp add: gen_next_Thrown_run)
  qed
qed

subsection \<open>Chunk-boundary independence\<close>

text \<open>
  Claim C1. For every finite byte stream and every partition of it into chunks, a
  consumer that pulls \<open>streamChat\<close>'s decode loop to its end receives exactly the
  same sequence of parsed events as it does when the same bytes arrive as one single
  chunk; the generator ends the same way and logs the same parse failures.
\<close>

theorem chunk_boundary_independence:
  "(case drain P (gen_init P (map Chunk chunks)) tr of (es, fin, g', tr') \<Rightarrow> (es, fin, tr'))
     = (case drain P (gen_init P [Chunk (concat chunks)]) tr of (es, fin, g', tr') \<Rightarrow> (es, fin, tr'))"
proof -
  have "run_from P (gen_init P (map Chunk cs)) tr =
          (case run_lines P (butlast (split_nn (snd (decode (decoder_step P) (decoder_init P) (concat cs))))) tr
           of (es, stop, tr') \<Rightarrow> (es, Returned, tr'))" for cs
    using run_reads_chunks [of "[]" P cs "decoder_init P" tr]
    by (simp add: run_from_def gen_init_def)
  from this [of chunks] this [of "[concat chunks]"]
  show ?thesis
    by (simp add: drain_run_from)
qed

subsection \<open>Terminal events\<close>

lemma while_read_Yielded_status:
  "while_read P rs d buf tr = (Yielded c, g', tr') \<Longrightarrow> phase g' = Suspended c"
proof (induction P rs d buf tr rule: while_read.induct)
  case (3 P v rs d buf tr)
  then show ?case
    by (fastforce split: prod.splits option.splits simp: Let_def)
qed simp_all

lemma gen_next_Yielded_status:
  "gen_next P g tr = (Yielded c, g', tr') \<Longrightarrow> phase g' = Suspended c"
  by (cases "phase g")
     (auto simp: gen_next_def split: if_splits prod.splits option.splits
           dest: while_read_Yielded_status)

lemma gen_next_after_done:
  "phase g = Suspended c \<Longrightarrow> chunk_done c \<Longrightarrow> gen_next P g tr = (Returned, closed g, tr)"
  by (simp add: gen_next_def)

lemma drain_after_done:
  "phase g = Suspended c \<Longrightarrow> chunk_done c \<Longrightarrow> drain P g tr = ([], Returned, closed g, tr)"
  by (subst drain.simps) (simp add: gen_next_after_done)

text \<open>
  Claim C5. When \<open>next()\<close> yields an event whose \<open>done\<close> field is true, that event
  is the last one: a consumer pulling from the state before it receives exactly this
  event, the following \<open>next()\<close> returns at once, and the generator ends with the
  reader and the remaining pieces of the current round as they were at the \<open>yield\<close>,
  whatever is still buffered or queued there.
\<close>

theorem terminal_event_ends_stream:
  assumes "gen_next P g tr = (Yielded c, g', tr')" and "chunk_done c"
  shows "drain P g tr = ([c], Returned, closed g', tr')
         \<and> gen_next P g' tr' = (Returned, closed g', tr')
         \<and> reader (closed g') = reader g' \<and> lines (closed g') = lines g'
         \<and> gen_next P (closed g') tr' = (Returned, closed g', tr')"
proof -
  from assms(1) have st: "phase g' = Suspended c" by (rule gen_next_Yielded_status)
  have "drain P g tr = ([c], Returned, closed g', tr')"
    by (subst drain.simps) (simp add: assms(1) drain_after_done [OF st assms(2)])
  moreover have "gen_next P (closed g') tr' = (Returned, closed g', tr')"
    by (simp add: gen_next_def closed_def)
  ultimately show ?thesis
    using gen_next_after_done [OF st assms(2)] by (simp add: closed_def)
qed

theorem terminal_event_ends_stream_witness:
  "gen_next sample_platform g_done_lo [] = (Yielded ev_done, g_after_done, [])
   \<and> chunk_done ev_done
   \<and> drain sample_platform g_done_lo [] = ([ev_done], Returned, closed g_after_done, [])
   \<and> gen_next sample_platform g_after_done [] = (Returned, closed g_after_done, [])
   \<and> reader (closed g_after_done) = [Chunk wire_Hel_lo_done]
   \<and> lines (closed g_after_done) = [js ''data: '' @ json_lo]"
proof -
  have h1: "gen_next sample_platform g_done_lo [] = (Yielded ev_done, g_after_done, [])"
    by code_simp
  have h2: "chunk_done ev_done"
    by (simp add: ev_done_def)
  have "reader g_after_done = [Chunk wire_Hel_lo_done]" "lines g_after_done = [js ''data: '' @ json_lo]"
    by (simp_all add: g_after_done_def)
  with h1 h2 terminal_event_ends_stream [OF h1 h2] show ?thesis
    by simp
qed

text \<open>In the whole sequence a consumer receives, a terminal event can only be the last.\<close>

lemma drain_done_is_last:
  "drain P g tr = (es, fin, g', tr') \<Longrightarrow> i < length es \<Longrightarrow> chunk_done (es ! i) \<Longrightarrow>
   Suc i = length es \<and> fin = Returned"
proof (induction P g tr arbitrary: es i fin g' tr' rule: drain.induct)
  case (1 P g tr)
  obtain ev g1 tr1 where gn: "gen_next P g tr = (ev, g1, tr1)"
    by (cases "gen_next P g tr")
  show ?case
  proof (cases ev)
    case (Yielded c)
    with gn have y: "gen_next P g tr = (Yielded c, g1, tr1)" by simp
    obtain es1 fin1 g2 tr2 where d1: "drain P g1 tr1 = (es1, fin1, g2, tr2)"
      by (cases "drain P g1 tr1")
    have d: "drain P g tr = (c # es1, fin1, g2, tr2)"
      by (subst drain.simps) (simp add: y d1)
    with "1.prems" have es: "es = c # es1" "fin = fin1" by simp_all
    show ?thesis
    proof (cases i)
      case 0
      with "1.prems" es have "chunk_done c" by simp
      with drain_after_done [OF gen_next_Yielded_status [OF y], of P tr1] d1
      have "es1 = []" "fin1 = Returned" by simp_all
      with es 0 show ?thesis by simp
    next
      case (Suc j)
      with "1.prems" es have "j < length es1" "chunk_done (es1 ! j)" by simp_all
      from "1.IH" [OF y [symmetric] refl refl d1 this] es Suc
      show ?thesis by simp
    qed
  next
    case Returned
    with gn have "drain P g tr = ([], Returned, g1, tr1)"
      by (subst drain.simps) simp
    with "1.prems" show ?thesis by simp
  next
    case (Thrown e)
    with gn have "drain P g tr = ([], Thrown e, g1, tr1)"
      by (subst drain.simps) simp
    with "1.prems" show ?thesis by simp
  qed
qed

subsection \<open>Malformed fragments\<close>

lemma run_lines_events_aux:
  "run_lines P ls tr = (es, stop, tr') \<Longrightarrow> es = upto_done (events_of P ls)"
  by (induction ls arbitrary: tr es)
     (auto simp: events_of_def event_of_def List.map_filter_simps
           split: prod.splits option.splits if_splits)

lemma run_lines_events: "fst (run_lines P ls tr) = upto_done (events_of P ls)"
  using run_lines_events_aux [of P ls tr] by (cases "run_lines P ls tr") simp

lemma events_of_append: "events_of P (xs @ ys) = events_of P xs @ events_of P ys"
  by (simp add: events_of_def List.map_filter_def)

lemma events_of_malformed: "malformed P bad \<Longrightarrow> events_of P (bad # ls) = events_of P ls"
  by (simp add: events_of_def malformed_def event_of_def List.map_filter_simps)

lemma run_lines_trace_ext: "\<exists>ext. snd (snd (run_lines P ls tr)) = tr @ ext"
proof (induction ls arbitrary: tr)
  case (Cons l ls)
  from Cons [of tr] obtain e1 where e1: "snd (snd (run_lines P ls tr)) = tr @ e1" by blast
  from Cons [of "tr @ [Console_error (js ''Failed to parse SSE data:'')]"]
  obtain e2 where e2: "snd (snd (run_lines P ls (tr @ [Console_error (js ''Failed to parse SSE data:'')])))
                         = tr @ Console_error (js ''Failed to parse SSE data:'') # e2" by auto
  show ?case
    using e1 e2 by (auto split: prod.splits option.splits)
qed simp

lemma run_lines_no_done_aux:
  "run_lines P ls tr = (es, stop, tr') \<Longrightarrow>
   \<forall>e \<in> set (events_of P ls). \<not> chunk_done e \<Longrightarrow> \<not> stop"
  by (induction ls arbitrary: tr es)
     (auto simp: events_of_def event_of_def List.map_filter_simps
           split: prod.splits option.splits if_splits)

lemma run_lines_no_done:
  "\<forall>e \<in> set (events_of P ls). \<not> chunk_done e \<Longrightarrow> \<not> fst (snd (run_lines P ls tr))"
  using run_lines_no_done_aux [of P ls tr] by (cases "run_lines P ls tr") auto

lemma run_lines_malformed_logged:
  assumes "malformed P bad" and "\<forall>e \<in> set (events_of P pre). \<not> chunk_done e"
  shows "Console_error (js ''Failed to parse SSE data:'')
           \<in> set (drop (length tr) (snd (snd (run_lines P (pre @ bad # post) tr))))"
proof -
  let ?log = "Console_error (js ''Failed to parse SSE data:'')"
  obtain es stop tr1 where r: "run_lines P pre tr = (es, stop, tr1)"
    by (cases "run_lines P pre tr")
  with run_lines_no_done [OF assms(2), of tr] have "\<not> stop" by simp
  with r have eq: "snd (snd (run_lines P (pre @ bad # post) tr))
                 = snd (snd (run_lines P post (tr1 @ [?log])))"
    using assms(1) by (simp add: run_lines_append malformed_def split: prod.splits)
  from run_lines_trace_ext [of P pre tr] r obtain e1 where "tr1 = tr @ e1" by auto
  moreover from run_lines_trace_ext [of P post "tr1 @ [?log]"]
  obtain e2 where "snd (snd (run_lines P post (tr1 @ [?log]))) = (tr1 @ [?log]) @ e2" by blast
  ultimately show ?thesis
    using eq by simp
qed

lemma drain_fragments:
  "(case drain P (gen_init P (map Chunk chunks)) tr of (es, fin, g', tr') \<Rightarrow> (es, tr'))
     = (case run_lines P (fragments P (concat chunks)) tr of (es, stop, tr') \<Rightarrow> (es, tr'))"
  using run_reads_chunks [of "[]" P chunks "decoder_init P" tr] drain_run_from [of P "gen_init P (map Chunk chunks)" tr]
  by (simp add: run_from_def gen_init_def fragments_def split: prod.splits)

text \<open>
  Claim C4, as stated, asks that every well-formed fragment before and after a
  malformed one is yielded. The stream below has a terminal event before the
  malformed fragment: the well-formed fragment after it is never yielded, because
  \<open>streamChat\<close> returned at the terminal event.
\<close>

theorem malformed_fragment_counterexample:
  "fragments sample_platform wire_done_truncated_lo
     = [js ''data: '' @ json_done, js ''data: '' @ json_truncated, js ''data: '' @ json_lo]
   \<and> event_of sample_platform (js ''data: '' @ json_done) = Some ev_done
   \<and> malformed sample_platform (js ''data: '' @ json_truncated)
   \<and> event_of sample_platform (js ''data: '' @ json_lo) = Some ev_lo
   \<and> ev_lo \<notin> set (fst (drain sample_platform (gen_init sample_platform [Chunk wire_done_truncated_lo]) []))"
  by code_simp

text \<open>
  Claim C4, amended. When a complete fragment of the stream starts with the prefix and
  fails to parse, the consumer receives exactly what the other fragments give: the
  events of the fragments before and after it, in order, up to and including the first
  terminal one. If no event before the malformed fragment is terminal, the failure is
  logged on the console during the run.
\<close>

theorem malformed_fragment_dropped:
  assumes "fragments P (concat chunks) = pre @ [bad] @ post" and "malformed P bad"
  shows "fst (drain P (gen_init P (map Chunk chunks)) tr)
           = upto_done (events_of P pre @ events_of P post)
         \<and> ((\<forall>e \<in> set (events_of P pre). \<not> chunk_done e) \<longrightarrow>
              Console_error (js ''Failed to parse SSE data:'')
                \<in> set (drop (length tr)
                         (snd (snd (snd (drain P (gen_init P (map Chunk chunks)) tr))))))"
proof -
  let ?d = "drain P (gen_init P (map Chunk chunks)) tr"
  let ?r = "run_lines P (pre @ bad # post) tr"
  from drain_fragments [of P chunks tr] assms(1)
  have eq: "fst ?d = fst ?r" "snd (snd (snd ?d)) = snd (snd ?r)"
    by (auto split: prod.splits)
  have "fst ?r = upto_done (events_of P pre @ events_of P post)"
    using assms(2) by (simp add: run_lines_events events_of_append events_of_malformed)
  with eq run_lines_malformed_logged [OF assms(2), where pre = pre and post = post and tr = tr]
  show ?thesis by simp
qed

theorem malformed_fragment_dropped_witness:
  "fragments sample_platform (concat [wire_Hel_truncated_lo])
     = [js ''data: '' @ json_Hel] @ [js ''data: '' @ json_truncated] @ [js ''data: '' @ json_lo]
   \<and> malformed sample_platform (js ''data: '' @ json_truncated)
   \<and> events_of sample_platform [js ''data: '' @ json_Hel] = [ev_Hel] \<and> \<not> chunk_done ev_Hel
   \<and> fst (drain sample_platform (gen_init sample_platform (map Chunk [wire_Hel_truncated_lo])) [])
       = [ev_Hel, ev_lo]
   \<and> Console_error (js ''Failed to parse SSE data:'')
       \<in> set (snd (snd (snd (drain sample_platform (gen_init sample_platform (map Chunk [wire_Hel_truncated_lo])) []))))"
proof -
  have h1: "fragments sample_platform (concat [wire_Hel_truncated_lo])
     = [js ''data: '' @ json_Hel] @ [js ''data: '' @ json_truncated] @ [js ''data: '' @ json_lo]"
    by code_simp
  have h2: "malformed sample_platform (js ''data: '' @ json_truncated)"
    by code_simp
  have h3: "events_of sample_platform [js ''data: '' @ json_Hel] = [ev_Hel]"
    by code_simp
  have h4: "events_of sample_platform [js ''data: '' @ json_lo] = [ev_lo]"
    by code_simp
  have h5: "\<not> chunk_done ev_Hel" "\<not> chunk_done ev_lo"
    by (simp_all add: ev_Hel_def ev_lo_def)
  from malformed_fragment_dropped [OF h1 h2, of "[]"] h1 h2 h3 h4 h5
  show ?thesis by simp
qed

section \<open>Properties of the conversation store\<close>

text \<open>Every operation of the storage client adds its request to the trace, and nothing else.\<close>

lemma conversationsApi_list_trace: "snd (conversationsApi_list E tr) = tr @ [Api_list]"
  by (simp add: conversationsApi_list_def Let_def split: sum.splits)

lemma conversationsApi_create_trace:
  "snd (conversationsApi_create E None tr) = tr @ [Api_create (js ''New Chat'')]"
  by (simp add: conversationsApi_create_def Let_def split: sum.splits)

lemma conversationsApi_delete_trace: "snd (conversationsApi_delete E i tr) = tr @ [Api_delete i]"
  by (simp add: conversationsApi_delete_def Let_def split: sum.splits)

lemma conversationsApi_addMessage_trace:
  "snd (conversationsApi_addMessage E i r c img tr) = tr @ [Api_addMessage i r c img]"
  by (simp add: conversationsApi_addMessage_def Let_def split: sum.splits)

lemma conversationsApi_list_sent:
  "conversationsApi_list E tr = (r, tr1) \<Longrightarrow> tr1 = tr @ [Api_list]"
  using conversationsApi_list_trace [of E tr] by simp

lemma conversationsApi_create_sent:
  "conversationsApi_create E None tr = (r, tr1) \<Longrightarrow> tr1 = tr @ [Api_create (js ''New Chat'')]"
  using conversationsApi_create_trace [of E tr] by simp

lemma conversationsApi_delete_sent:
  "conversationsApi_delete E i tr = (r, tr1) \<Longrightarrow> tr1 = tr @ [Api_delete i]"
  using conversationsApi_delete_trace [of E i tr] by simp

lemma conversationsApi_addMessage_sent:
  "conversationsApi_addMessage E i r c img tr = (res, tr1) \<Longrightarrow> tr1 = tr @ [Api_addMessage i r c img]"
  using conversationsApi_addMessage_trace [of E i r c img tr] by simp

text \<open>
  Claim C8. For every message, \<open>saveMessage\<close> called while
  \<open>currentConversationId\<close> is \<open>null\<close> resolves, sends no request (the trace is
  unchanged) and leaves every field of the store as it was.
\<close>

theorem saveMessage_without_conversation:
  assumes "currentConversationId s = None"
  shows "saveMessage E m (s, tr) = (Inr (), (s, tr))"
  using assms by (simp add: saveMessage_def falsy_id_def)

theorem saveMessage_without_conversation_witness:
  "currentConversationId initial_state = None
   \<and> saveMessage canned_env hello_message (initial_state, []) = (Inr (), (initial_state, []))"
proof -
  have h: "currentConversationId initial_state = None"
    by (simp add: initial_state_def)
  from h saveMessage_without_conversation [OF h, of canned_env hello_message "[]"]
  show ?thesis by simp
qed

text \<open>
  Claim C9. When the deleted conversation is the current one and the storage delete
  succeeds, \<open>deleteConversation\<close> is the refresh of the summary list run on the
  store with \<open>messages\<close> and \<open>currentConversationId\<close> cleared together: it
  resolves with \<open>messages = []\<close> and \<open>currentConversationId = null\<close>, the list
  request follows the delete request, and the list holds the answer of that request
  when it succeeds.
\<close>

theorem deleteConversation_active:
  assumes "currentConversationId s = Some i"
      and "fst (conversationsApi_delete E i tr) = Inr ()"
  shows "deleteConversation E i (s, tr)
           = loadConversations E (s\<lparr>currentConversationId := None, messages := []\<rparr>, tr @ [Api_delete i])
         \<and> (case deleteConversation E i (s, tr) of
              (r, s', tr') \<Rightarrow>
                r = Inr () \<and> messages s' = [] \<and> currentConversationId s' = None
                \<and> \<not> isLoadingConversations s'
                \<and> take (length tr + 2) tr' = tr @ [Api_delete i, Api_list]
                \<and> (\<forall>cs. fst (conversationsApi_list E (tr @ [Api_delete i])) = Inr cs
                         \<longrightarrow> conversations s' = cs \<and> tr' = tr @ [Api_delete i, Api_list]))"
proof -
  obtain r1 where d: "conversationsApi_delete E i tr = (r1, tr @ [Api_delete i])"
    using conversationsApi_delete_trace [of E i tr]
    by (cases "conversationsApi_delete E i tr") simp
  obtain r2 where l: "conversationsApi_list E (tr @ [Api_delete i]) = (r2, tr @ [Api_delete i, Api_list])"
    using conversationsApi_list_trace [of E "tr @ [Api_delete i]"]
    by (cases "conversationsApi_list E (tr @ [Api_delete i])") simp
  from assms(2) d have r1: "r1 = Inr ()" by simp
  show ?thesis
    using assms(1) d l r1
    by (auto simp: deleteConversation_def loadConversations_def Let_def split: sum.splits)
qed

theorem deleteConversation_active_witness:
  "currentConversationId two_messages = Some 7
   \<and> fst (conversationsApi_delete canned_env 7 []) = Inr ()
   \<and> fst (conversationsApi_list canned_env ([] @ [Api_delete 7])) = Inr [conversation_7]
   \<and> deleteConversation canned_env 7 (two_messages, [])
       = (Inr (), (two_messages\<lparr>messages := [], currentConversationId := None,
                                conversations := [conversation_7]\<rparr>,
                   [Api_delete 7, Api_list]))"
proof -
  have h1: "currentConversationId two_messages = Some 7"
    by (simp add: two_messages_def)
  have h2: "fst (conversationsApi_delete canned_env 7 []) = Inr ()"
    by (simp add: conversationsApi_delete_def canned_env_def)
  have h3: "fst (conversationsApi_list canned_env ([] @ [Api_delete 7])) = Inr [conversation_7]"
    by (simp add: conversationsApi_list_def canned_env_def)
  from deleteConversation_active [OF h1 h2]
  have "deleteConversation canned_env 7 (two_messages, [])
          = loadConversations canned_env
              (two_messages\<lparr>currentConversationId := None, messages := []\<rparr>, [] @ [Api_delete 7])"
    by (rule conjunct1)
  also have "\<dots> = (Inr (), (two_messages\<lparr>messages := [], currentConversationId := None,
                                conversations := [conversation_7]\<rparr>,
                   [Api_delete 7, Api_list]))"
    by (simp add: loadConversations_def conversationsApi_list_def canned_env_def two_messages_def)
  finally show ?thesis
    using h1 h2 h3 by simp
qed

section \<open>Properties of a turn\<close>

subsection \<open>What each step leaves untouched\<close>

lemma requests_append [simp]: "requests (a @ b) = requests a @ requests b"
  by (simp add: requests_def)

lemma requests_simps [simp]:
  "requests [] = []"
  "requests (Api_list # tr) = requests tr"
  "requests (Api_create t # tr) = requests tr"
  "requests (Api_delete i # tr) = requests tr"
  "requests (Console_error m # tr) = requests tr"
  "requests (Console_log m # tr) = requests tr"
  "requests (Api_addMessage i r t img # tr) = Api_addMessage i r t img # requests tr"
  "requests (Fetch_image auth p # tr) = Fetch_image auth p # requests tr"
  "requests (Fetch_stream auth ms model cid # tr) = Fetch_stream auth ms model cid # requests tr"
  by (simp_all add: requests_def is_request_def)

lemma loadConversations_frame:
  "loadConversations E (s, tr) = (r, (s', tr')) \<Longrightarrow>
   r = Inr () \<and> same_chat s s' \<and> requests tr' = requests tr"
  by (auto simp: loadConversations_def Let_def same_chat_def split: sum.splits prod.splits
           dest!: conversationsApi_list_sent)

lemma saveMessage_frame:
  "saveMessage E m (s, tr) = (r, (s', tr')) \<Longrightarrow>
   r = Inr () \<and> same_chat s s'
   \<and> requests tr' = requests tr @
        (if falsy_id (currentConversationId s) then []
         else [Api_addMessage (the (currentConversationId s)) (role m) (content m) (image_b64 m)])"
  by (auto simp: saveMessage_def Let_def same_chat_def split: sum.splits if_splits prod.splits
           dest!: loadConversations_frame conversationsApi_addMessage_sent)

lemma createConversation_frame:
  "createConversation E (s, tr) = (r, (s', tr')) \<Longrightarrow>
   requests tr' = requests tr \<and> isStreaming s' = isStreaming s
   \<and> (case r of
         Inl e \<Rightarrow> messages s' = messages s \<and> currentConversationId s' = currentConversationId s
       | Inr i \<Rightarrow> messages s' = [] \<and> currentConversationId s' = Some i)"
  by (auto simp: createConversation_def Let_def same_chat_def split: sum.splits prod.splits
           dest!: loadConversations_frame conversationsApi_create_sent)

lemma ensure_conversation_frame:
  "ensure_conversation E (s, tr) = (convId, (s', tr')) \<Longrightarrow>
   requests tr' = requests tr \<and> isStreaming s' = isStreaming s
   \<and> (messages s' = messages s \<or> messages s' = [])"
  by (cases "createConversation E (s, tr)")
     (auto simp: ensure_conversation_def Let_def split: sum.splits prod.splits if_splits
           dest!: createConversation_frame)

lemma for_lines_requests:
  "for_lines P ls tr = (r, tr') \<Longrightarrow> requests tr' = requests tr"
  by (induction ls arbitrary: tr) (auto split: if_splits option.splits)

lemma while_read_requests:
  "while_read P rs d buf tr = (ev, g', tr') \<Longrightarrow> requests tr' = requests tr"
proof (induction P rs d buf tr rule: while_read.induct)
  case (3 P v rs d buf tr)
  then show ?case
    by (fastforce simp: Let_def split: prod.splits option.splits dest: for_lines_requests)
qed simp_all

lemma gen_next_requests:
  "gen_next P g tr = (ev, g', tr') \<Longrightarrow> requests tr' = requests tr"
  by (cases "phase g")
     (auto simp: gen_next_def split: if_splits prod.splits option.splits
           dest!: for_lines_requests while_read_requests)

declare for_await.simps [simp del]

lemma for_await_consume:
  "drain P g tr = (es, fin, g_end, tr_end) \<Longrightarrow>
   for_await P g (s, tr) full = (r, g', (s', tr')) \<Longrightarrow>
   (r, s') = consume es fin s full \<and> requests tr' = requests tr"
proof (induction P g "(s, tr)" full arbitrary: s tr es fin g_end tr_end r g' s' tr'
       rule: for_await.induct)
  case (1 P g full)
  obtain ev g1 tr1 where gn: "gen_next P g tr = (ev, g1, tr1)"
    by (cases "gen_next P g tr")
  note rq = gen_next_requests [OF gn]
  show ?case
  proof (cases ev)
    case (Yielded c)
    with gn have y: "gen_next P g tr = (Yielded c, g1, tr1)" by simp
    obtain es1 fin1 g2 tr2 where d1: "drain P g1 tr1 = (es1, fin1, g2, tr2)"
      by (cases "drain P g1 tr1")
    have "drain P g tr = (c # es1, fin1, g2, tr2)"
      by (subst drain.simps) (simp add: y d1)
    with "1.prems"(1) have es: "es = c # es1" "fin = fin1" by simp_all
    show ?thesis
    proof (cases "truthy (chunk_error c) \<or> chunk_done c")
      case True
      with "1.prems"(2) y rq es show ?thesis
        by (subst (asm) for_await.simps) (auto split: if_splits)
    next
      case False
      with "1.prems"(2) y
      have fa: "for_await P g1 (appendToLastMessage (chunk_content c) s, tr1) (full @ chunk_content c)
                  = (r, g', (s', tr'))"
        by (subst (asm) for_await.simps) simp
      from False have nt: "\<not> truthy (chunk_error c)" and nd: "\<not> chunk_done c" by simp_all
      from "1.hyps" [OF refl y [symmetric] refl refl nt nd d1 fa]
      have "(r, s') = consume es1 fin1 (appendToLastMessage (chunk_content c) s) (full @ chunk_content c)"
           "requests tr' = requests tr1"
        by simp_all
      with es False rq show ?thesis by simp
    qed
  next
    case Returned
    with gn have "drain P g tr = ([], Returned, g1, tr1)"
      by (subst drain.simps) simp
    with "1.prems"(1) have "es = []" "fin = Returned" by simp_all
    with "1.prems"(2) gn Returned rq show ?thesis
      by (subst (asm) for_await.simps) auto
  next
    case (Thrown e)
    with gn have "drain P g tr = ([], Thrown e, g1, tr1)"
      by (subst drain.simps) simp
    with "1.prems"(1) have "es = []" "fin = Thrown e" by simp_all
    with "1.prems"(2) gn Thrown rq show ?thesis
      by (subst (asm) for_await.simps) auto
  qed
qed

lemma streamChat_trace:
  "streamChat P E params tr = (r, tr') \<Longrightarrow> tr' = tr @ [stream_call E params]"
  by (auto simp: streamChat_def stream_call_def Let_def split: sum.splits if_splits option.splits)

lemma pull_stream_consume:
  assumes "stream_run P E params tr = (es, fin, tr_end)"
      and "pull_stream P E params (s, tr) = (r, (s', tr'))"
  shows "(r, s') = consume es fin s [] \<and> requests tr' = requests tr @ [stream_call E params]"
proof -
  obtain o1 tr3 where sc: "streamChat P E params tr = (o1, tr3)"
    by (cases "streamChat P E params tr")
  have rq: "requests tr3 = requests tr @ [stream_call E params]"
    using streamChat_trace [OF sc] by (simp add: stream_call_def)
  show ?thesis
  proof (cases o1)
    case (Inl e)
    with sc assms rq show ?thesis
      by (auto simp: stream_run_def pull_stream_def)
  next
    case (Inr g)
    obtain es1 fin1 g2 tr4 where d: "drain P g tr3 = (es1, fin1, g2, tr4)"
      by (cases "drain P g tr3")
    with sc Inr assms(1) have e: "es1 = es" "fin1 = fin"
      by (simp_all add: stream_run_def)
    obtain r1 g' w' where fa: "for_await P g (s, tr3) [] = (r1, g', w')"
      by (cases "for_await P g (s, tr3) []")
    with sc Inr assms(2) have "r1 = r" "w' = (s', tr')"
      by (simp_all add: pull_stream_def)
    with for_await_consume [OF d, of s "[]" r g' s' tr'] fa e rq show ?thesis
      by simp
  qed
qed

lemma appendToLastMessage_snoc:
  "messages s = ms @ [m] \<Longrightarrow>
   appendToLastMessage c s = s\<lparr>messages := ms @ [m\<lparr>content := content m @ c\<rparr>]\<rparr>"
  by (simp add: appendToLastMessage_def Let_def nth_append)

lemma consume_snoc:
  "messages s = ms @ [m] \<Longrightarrow> consume es fin s full = (r, s') \<Longrightarrow>
   \<exists>d. s' = s\<lparr>messages := ms @ [m\<lparr>content := content m @ d\<rparr>]\<rparr>"
proof (induction es arbitrary: s m full)
  case Nil
  then have "s' = s" by (auto split: gen_event.splits)
  with Nil(1) have "s' = s\<lparr>messages := ms @ [m\<lparr>content := content m @ []\<rparr>]\<rparr>" by simp
  then show ?case by blast
next
  case (Cons c es)
  show ?case
  proof (cases "truthy (chunk_error c) \<or> chunk_done c")
    case True
    with Cons.prems have "s' = s" by (auto split: if_splits)
    with Cons.prems(1) have "s' = s\<lparr>messages := ms @ [m\<lparr>content := content m @ []\<rparr>]\<rparr>" by simp
    then show ?thesis by blast
  next
    case False
    let ?s1 = "appendToLastMessage (chunk_content c) s"
    let ?m1 = "m\<lparr>content := content m @ chunk_content c\<rparr>"
    have s1: "?s1 = s\<lparr>messages := ms @ [?m1]\<rparr>"
      using Cons.prems(1) by (rule appendToLastMessage_snoc)
    then have ms1: "messages ?s1 = ms @ [?m1]" by simp
    from Cons.prems(2) False
    have "consume es fin ?s1 (full @ chunk_content c) = (r, s')" by simp
    from Cons.IH [OF ms1 this] obtain d where "s' = ?s1\<lparr>messages := ms @ [?m1\<lparr>content := content ?m1 @ d\<rparr>]\<rparr>"
      by blast
    with s1 have "s' = s\<lparr>messages := ms @ [m\<lparr>content := content m @ (chunk_content c @ d)\<rparr>]\<rparr>"
      by simp
    then show ?thesis by blast
  qed
qed

lemma consume_plain:
  "messages s = ms @ [m] \<Longrightarrow> list_all plain es \<Longrightarrow>
   consume es fin s full =
     ((case fin of Thrown e \<Rightarrow> Inl e | _ \<Rightarrow> Inr (full @ concat (map chunk_content es))),
      s\<lparr>messages := ms @ [m\<lparr>content := content m @ concat (map chunk_content es)\<rparr>]\<rparr>)"
proof (induction es arbitrary: s m full)
  case Nil
  then show ?case by (simp split: gen_event.splits)
next
  case (Cons c es)
  let ?s1 = "appendToLastMessage (chunk_content c) s"
  let ?m1 = "m\<lparr>content := content m @ chunk_content c\<rparr>"
  have s1: "?s1 = s\<lparr>messages := ms @ [?m1]\<rparr>"
    using Cons.prems(1) by (rule appendToLastMessage_snoc)
  then have ms1: "messages ?s1 = ms @ [?m1]" by simp
  from Cons.prems(2) have pl: "plain c" "list_all plain es" by simp_all
  from Cons.IH [OF ms1 pl(2), of "full @ chunk_content c"] pl(1) s1
  show ?case by (simp add: plain_def split: gen_event.splits)
qed

lemma chat_begin_result:
  assumes "chat_begin E c (s1, tr1) = (s4, tr2)"
  shows "messages s4 = messages s1 @
           [\<lparr>role = User, content = c, image_b64 = None, createdAt = Some (Date_now E tr1)\<rparr>,
            \<lparr>role = Assistant, content = [], image_b64 = None, createdAt = Some (Date_now E tr2)\<rparr>]"
    and "isStreaming s4"
    and "currentConversationId s4 = currentConversationId s1"
    and "requests tr2 = requests tr1 @
           (if falsy_id (currentConversationId s1) then []
            else [Api_addMessage (the (currentConversationId s1)) User c None])"
proof -
  let ?u = "\<lparr>role = User, content = c, image_b64 = None, createdAt = Some (Date_now E tr1)\<rparr>"
  obtain r2 s2 t2 where sv: "saveMessage E ?u (addMessage ?u s1, tr1) = (r2, (s2, t2))"
    by (cases "saveMessage E ?u (addMessage ?u s1, tr1)") auto
  from saveMessage_frame [OF sv]
  have f: "same_chat (addMessage ?u s1) s2"
          "requests t2 = requests tr1 @
             (if falsy_id (currentConversationId (addMessage ?u s1)) then []
              else [Api_addMessage (the (currentConversationId (addMessage ?u s1))) User c None])"
    by simp_all
  from assms sv have s4: "s4 = setIsStreaming True (addMessage \<lparr>role = Assistant, content = [],
                              image_b64 = None, createdAt = Some (Date_now E t2)\<rparr> s2)"
    and t: "tr2 = t2"
    by (auto simp: chat_begin_def Let_def)
  show "messages s4 = messages s1 @
           [?u, \<lparr>role = Assistant, content = [], image_b64 = None, createdAt = Some (Date_now E tr2)\<rparr>]"
    using f(1) by (simp add: s4 t same_chat_def addMessage_def setIsStreaming_def)
  show "isStreaming s4" by (simp add: s4 setIsStreaming_def addMessage_def)
  show "currentConversationId s4 = currentConversationId s1"
    using f(1) by (simp add: s4 same_chat_def addMessage_def setIsStreaming_def)
  show "requests tr2 = requests tr1 @
           (if falsy_id (currentConversationId s1) then []
            else [Api_addMessage (the (currentConversationId s1)) User c None])"
    using f(2) by (simp add: t addMessage_def)
qed

subsection \<open>The text path in terms of the events of its stream\<close>

lemma chat_turn_result:
  assumes cb: "chat_begin E c w1 = (s4, tr2)"
      and sr: "stream_run P E (stream_request convId s4) tr2 = (es, fin, tr_end)"
      and cs: "consume es fin s4 [] = (rr, s5)"
  shows "\<exists>s' tr'. chat_turn P E c convId w1 = (Inr (), (s', tr'))
           \<and> \<not> isStreaming s' \<and> currentConversationId s' = currentConversationId s4
           \<and> (case rr of
                 Inr full \<Rightarrow>
                   messages s' = messages s5
                   \<and> requests tr' = requests tr2 @ stream_call E (stream_request convId s4) #
                        (if full \<noteq> [] \<and> \<not> falsy_id (currentConversationId s4)
                         then [Api_addMessage (the (currentConversationId s4)) Assistant full None]
                         else [])
               | Inl e \<Rightarrow>
                   messages s' = messages (if is_AbortError e then s5
                                           else appendToLastMessage error_notice s5)
                   \<and> requests tr' = requests tr2 @ [stream_call E (stream_request convId s4)])"
proof -
  obtain s1 tr1 where w1: "w1 = (s1, tr1)" by (cases w1)
  from chat_begin_result(1) [OF cb [unfolded w1]]
  obtain ms m where ms: "messages s4 = ms @ [m]" by auto
  from consume_snoc [OF ms cs] obtain d where
    s5: "s5 = s4\<lparr>messages := ms @ [m\<lparr>content := content m @ d\<rparr>]\<rparr>" by blast
  then have cid5: "currentConversationId s5 = currentConversationId s4" by simp
  obtain r0 s5' tr5 where ps: "pull_stream P E (stream_request convId s4) (s4, tr2) = (r0, (s5', tr5))"
    by (cases "pull_stream P E (stream_request convId s4) (s4, tr2)") auto
  from pull_stream_consume [OF sr ps] cs
  have r0: "r0 = rr" "s5' = s5"
    and rq5: "requests tr5 = requests tr2 @ [stream_call E (stream_request convId s4)]"
    by simp_all
  show ?thesis
  proof (cases rr)
    case (Inl e)
    with cb ps r0 rq5 cid5 show ?thesis
      by (simp add: chat_turn_def Let_def is_AbortError_def setIsStreaming_def
                    appendToLastMessage_def)
  next
    case (Inr full)
    show ?thesis
    proof (cases "full = []")
      case True
      with Inr cb ps r0 rq5 cid5 show ?thesis
        by (simp add: chat_turn_def Let_def setIsStreaming_def)
    next
      case False
      let ?a = "\<lparr>role = Assistant, content = full, image_b64 = None,
                 createdAt = Some (Date_now E tr5)\<rparr>"
      obtain r6 s6 tr6 where sv: "saveMessage E ?a (s5, tr5) = (r6, (s6, tr6))"
        by (cases "saveMessage E ?a (s5, tr5)") auto
      from saveMessage_frame [OF sv] cid5 rq5
      have "same_chat s5 s6"
           "requests tr6 = requests tr2 @ stream_call E (stream_request convId s4) #
              (if falsy_id (currentConversationId s4) then []
               else [Api_addMessage (the (currentConversationId s4)) Assistant full None])"
        by simp_all
      with Inr False cb ps r0 sv cid5 show ?thesis
        by (simp add: chat_turn_def Let_def setIsStreaming_def same_chat_def)
    qed
  qed
qed

text \<open>\<open>sendMessage\<close> never rejects: every failure inside a turn is caught there.\<close>

lemma imagine_turn_resolves: "fst (imagine_turn E c w) = Inr ()"
  by (cases w) (simp add: imagine_turn_def Let_def split: prod.splits sum.splits)

lemma chat_turn_resolves: "fst (chat_turn P E c convId w) = Inr ()"
  by (simp add: chat_turn_def Let_def split: prod.splits)

lemma sendMessage_resolves: "fst (sendMessage P E c w) = Inr ()"
  by (simp add: sendMessage_def imagine_turn_resolves chat_turn_resolves split: prod.splits)

lemma sendMessage_text_path:
  "ensure_conversation E w = (convId, w1) \<Longrightarrow> \<not> isImageCommand c \<Longrightarrow>
   sendMessage P E c w = chat_turn P E c convId w1"
  by (simp add: sendMessage_def)

lemma stream_call_request:
  "stream_call E (stream_request convId s4) =
     Fetch_stream (authorization E) (map (\<lambda>m. (role m, content m)) (butlast (messages s4)))
       (js ''llama-3.3-70b-versatile'') (conversationId_argument convId)"
  by (simp add: stream_call_def stream_request_def Let_def)

subsection \<open>Cancellation\<close>

text \<open>
  Claim C3. In a text-path turn whose stream delivers events that only carry text and
  then fails with the \<open>AbortError\<close> that the platform raises when the abort signal
  fires (at the request or at a read), \<open>sendMessage\<close> resolves with the streaming flag
  off; the messages are those before the turn, the user message, and the placeholder
  holding exactly the text received so far, so no notice is appended to any message;
  the requests of the turn are the save of the user message, when a conversation is
  active, and the stream request, so the partial response is not persisted.
\<close>

theorem cancellation_is_silent:
  assumes "ensure_conversation E w = (convId, (s1, tr1))"
      and "\<not> isImageCommand c"
      and "chat_begin E c (s1, tr1) = (s4, tr2)"
      and "fst (stream_run P E (stream_request convId s4) tr2) = es"
      and "fst (snd (stream_run P E (stream_request convId s4) tr2)) = Thrown e"
      and "list_all plain es" and "is_AbortError e"
  shows "\<exists>s' tr'. sendMessage P E c w = (Inr (), (s', tr'))
           \<and> \<not> isStreaming s'
           \<and> messages s' = messages s1 @
                [\<lparr>role = User, content = c, image_b64 = None, createdAt = Some (Date_now E tr1)\<rparr>,
                 \<lparr>role = Assistant, content = concat (map chunk_content es), image_b64 = None,
                  createdAt = Some (Date_now E tr2)\<rparr>]
           \<and> requests tr' = requests (snd w) @
                (if falsy_id (currentConversationId s1) then []
                 else [Api_addMessage (the (currentConversationId s1)) User c None])
                @ [stream_call E (stream_request convId s4)]"
proof -
  obtain s tr where w: "w = (s, tr)" by (cases w)
  note cb = chat_begin_result [OF assms(3)]
  obtain tr_end where sr: "stream_run P E (stream_request convId s4) tr2 = (es, Thrown e, tr_end)"
    using assms(4,5) by (cases "stream_run P E (stream_request convId s4) tr2") auto
  let ?u = "\<lparr>role = User, content = c, image_b64 = None, createdAt = Some (Date_now E tr1)\<rparr>"
  let ?a = "\<lparr>role = Assistant, content = [], image_b64 = None, createdAt = Some (Date_now E tr2)\<rparr>"
  have ms4: "messages s4 = (messages s1 @ [?u]) @ [?a]" using cb(1) by simp
  have cs: "consume es (Thrown e) s4 [] =
              (Inl e, s4\<lparr>messages := (messages s1 @ [?u]) @
                             [?a\<lparr>content := content ?a @ concat (map chunk_content es)\<rparr>]\<rparr>)"
    using consume_plain [OF ms4 assms(6), of "Thrown e" "[]"] by simp
  from chat_turn_result [OF assms(3) sr cs] assms(7)
  obtain s' tr' where
    r: "chat_turn P E c convId (s1, tr1) = (Inr (), (s', tr'))" "\<not> isStreaming s'"
       "messages s' = (messages s1 @ [?u]) @ [?a\<lparr>content := content ?a @ concat (map chunk_content es)\<rparr>]"
       "requests tr' = requests tr2 @ [stream_call E (stream_request convId s4)]"
    by auto
  from ensure_conversation_frame [OF assms(1) [unfolded w]] have "requests tr1 = requests tr"
    by simp
  with r cb(4) w sendMessage_text_path [OF assms(1,2), of P] show ?thesis
    by simp
qed

theorem cancellation_is_silent_witness:
  "ensure_conversation cancelled_env (with_conversation 3, []) = (Some 3, (with_conversation 3, []))
   \<and> \<not> isImageCommand (js ''hi'')
   \<and> fst (stream_run sample_platform cancelled_env (stream_request (Some 3) (fst hi_cancelled))
             (snd hi_cancelled)) = [ev_Hel]
   \<and> fst (snd (stream_run sample_platform cancelled_env (stream_request (Some 3) (fst hi_cancelled))
                  (snd hi_cancelled))) = Thrown abort_error
   \<and> list_all plain [ev_Hel] \<and> is_AbortError abort_error
   \<and> (case sendMessage sample_platform cancelled_env (js ''hi'') (with_conversation 3, []) of
        (r, s', tr') \<Rightarrow>
          r = Inr () \<and> \<not> isStreaming s'
          \<and> map (\<lambda>m. (role m, content m)) (messages s') = [(User, js ''hi''), (Assistant, js ''Hel'')]
          \<and> requests tr' =
                [Api_addMessage 3 User (js ''hi'') None,
                 Fetch_stream None [(User, js ''hi'')] (js ''llama-3.3-70b-versatile'') (Some (js ''3''))])"
proof -
  have h1: "ensure_conversation cancelled_env (with_conversation 3, []) = (Some 3, (with_conversation 3, []))"
    by code_simp
  have h2: "\<not> isImageCommand (js ''hi'')"
    by code_simp
  have h3: "chat_begin cancelled_env (js ''hi'') (with_conversation 3, []) = (fst hi_cancelled, snd hi_cancelled)"
    by (simp add: hi_cancelled_def)
  have h4: "fst (stream_run sample_platform cancelled_env (stream_request (Some 3) (fst hi_cancelled))
             (snd hi_cancelled)) = [ev_Hel]"
    by code_simp
  have h5: "fst (snd (stream_run sample_platform cancelled_env (stream_request (Some 3) (fst hi_cancelled))
                  (snd hi_cancelled))) = Thrown abort_error"
    by code_simp
  have h6: "list_all plain [ev_Hel]"
    by code_simp
  have h7: "is_AbortError abort_error"
    by code_simp
  have ev: "case sendMessage sample_platform cancelled_env (js ''hi'') (with_conversation 3, []) of
        (r, s', tr') \<Rightarrow>
          r = Inr () \<and> \<not> isStreaming s'
          \<and> map (\<lambda>m. (role m, content m)) (messages s') = [(User, js ''hi''), (Assistant, js ''Hel'')]
          \<and> requests tr' =
                [Api_addMessage 3 User (js ''hi'') None,
                 Fetch_stream None [(User, js ''hi'')] (js ''llama-3.3-70b-versatile'') (Some (js ''3''))]"
    by code_simp
  from cancellation_is_silent [OF h1 h2 h3 h4 h5 h6 h7] h1 h2 h4 h5 h6 h7 ev
  show ?thesis by simp
qed

subsection \<open>The text path without a conversation\<close>

lemma best_effort_text_path:
  assumes "currentConversationId s = None"
      and "fst (createConversation E (s, tr)) = Inl e"
      and "\<not> isImageCommand c"
  shows "\<exists>s' tr' u a. sendMessage P E c (s, tr) = (Inr (), (s', tr'))
           \<and> messages s' = messages s @ [u, a]
           \<and> role u = User \<and> content u = c \<and> role a = Assistant
           \<and> currentConversationId s' = None
           \<and> requests tr' = requests tr @
                [Fetch_stream (authorization E)
                   (map (\<lambda>m. (role m, content m)) (messages s) @ [(User, c)])
                   (js ''llama-3.3-70b-versatile'') None]"
proof -
  obtain s0 tr0 where cc: "createConversation E (s, tr) = (Inl e, (s0, tr0))"
    using assms(2) by (cases "createConversation E (s, tr)") auto
  from createConversation_frame [OF cc] assms(1)
  have f0: "requests tr0 = requests tr" "messages s0 = messages s" "currentConversationId s0 = None"
    by simp_all
  define tr1 where "tr1 = tr0 @ [Console_error (js ''Failed to create conversation:'')]"
  have ens: "ensure_conversation E (s, tr) = (None, (s0, tr1))"
    using assms(1) cc by (simp add: ensure_conversation_def falsy_id_def tr1_def)
  obtain s4 tr2 where cbe: "chat_begin E c (s0, tr1) = (s4, tr2)"
    by (cases "chat_begin E c (s0, tr1)")
  note cb = chat_begin_result [OF cbe]
  let ?u = "\<lparr>role = User, content = c, image_b64 = None, createdAt = Some (Date_now E tr1)\<rparr>"
  let ?a = "\<lparr>role = Assistant, content = [], image_b64 = None, createdAt = Some (Date_now E tr2)\<rparr>"
  have ms4: "messages s4 = (messages s @ [?u]) @ [?a]" using cb(1) f0 by simp
  have cid4: "currentConversationId s4 = None" using cb(3) f0 by simp
  have rq2: "requests tr2 = requests tr" using cb(4) f0 by (simp add: tr1_def falsy_id_def)
  have call: "stream_call E (stream_request None s4) =
                Fetch_stream (authorization E)
                   (map (\<lambda>m. (role m, content m)) (messages s) @ [(User, c)])
                   (js ''llama-3.3-70b-versatile'') None"
    by (simp add: stream_call_request ms4 butlast_append conversationId_argument_def)
  obtain es fin tr_end where sr: "stream_run P E (stream_request None s4) tr2 = (es, fin, tr_end)"
    by (cases "stream_run P E (stream_request None s4) tr2")
  obtain rr s5 where cs: "consume es fin s4 [] = (rr, s5)"
    by (cases "consume es fin s4 []")
  from consume_snoc [OF ms4 cs] obtain d where
    s5: "s5 = s4\<lparr>messages := (messages s @ [?u]) @ [?a\<lparr>content := content ?a @ d\<rparr>]\<rparr>" by blast
  from chat_turn_result [OF cbe sr cs] obtain s' tr' where
    r: "chat_turn P E c None (s0, tr1) = (Inr (), (s', tr'))"
       "currentConversationId s' = currentConversationId s4"
       "case rr of
          Inr full \<Rightarrow> messages s' = messages s5
            \<and> requests tr' = requests tr2 @ stream_call E (stream_request None s4) #
                 (if full \<noteq> [] \<and> \<not> falsy_id (currentConversationId s4)
                  then [Api_addMessage (the (currentConversationId s4)) Assistant full None] else [])
        | Inl e \<Rightarrow> messages s' = messages (if is_AbortError e then s5 else appendToLastMessage error_notice s5)
            \<and> requests tr' = requests tr2 @ [stream_call E (stream_request None s4)]"
    by blast
  have rq: "requests tr' = requests tr @ [stream_call E (stream_request None s4)]"
    using r(3) cid4 rq2 by (cases rr) (simp_all add: falsy_id_def)
  have "\<exists>a. messages s' = messages s @ [?u, a] \<and> role a = Assistant"
  proof (cases rr)
    case (Inr full)
    with r(3) s5 show ?thesis by simp
  next
    case (Inl e')
    have ms5: "messages s5 = (messages s @ [?u]) @ [?a\<lparr>content := content ?a @ d\<rparr>]" using s5 by simp
    from Inl r(3) s5 appendToLastMessage_snoc [OF ms5, of error_notice]
    show ?thesis by (cases "is_AbortError e'") simp_all
  qed
  then obtain a where "messages s' = messages s @ [?u, a]" "role a = Assistant" by blast
  with r(1,2) rq cid4 call sendMessage_text_path [OF ens assms(3), of P]
  show ?thesis by (intro exI [of _ s'] exI [of _ tr'] exI [of _ ?u] exI [of _ a]) simp
qed

subsection \<open>The round trip of the text path\<close>

lemma js_append: "js (a @ b) = js a @ js b"
  by (simp add: js_def)

text \<open>
  Claim C2, as stated, has the accumulated text persisted in every text-path turn
  whose events are those three. In the turn below no conversation is active and none
  can be created: the events arrive, the placeholder ends as \<open>Hello\<close> with the
  streaming flag off, and the only request of the turn is the stream request; no
  message is saved.
\<close>

theorem text_round_trip_counterexample:
  "currentConversationId initial_state = None
   \<and> \<not> isImageCommand (js ''hi'')
   \<and> fst (stream_run sample_platform storage_down_env (stream_request None (fst hi_down))
             (snd hi_down)) = [ev_Hel, ev_lo, ev_done]
   \<and> (case sendMessage sample_platform storage_down_env (js ''hi'') (initial_state, []) of
        (r, s', tr') \<Rightarrow>
          content (last (messages s')) = js ''Hello'' \<and> \<not> isStreaming s'
          \<and> requests tr' =
                [Fetch_stream None [(User, js ''hi'')] (js ''llama-3.3-70b-versatile'') None])"
  by code_simp

text \<open>
  Claim C2, amended. In a text-path turn whose stream yields exactly the events \<open>Hel\<close>,
  \<open>lo\<close> and the terminal event, \<open>sendMessage\<close> resolves with the streaming flag off
  and the placeholder holding exactly \<open>Hello\<close>. When a conversation is active or was
  created in the first step (the store then holds an id that is not falsy), the
  accumulated text \<open>Hello\<close> is sent to storage as an assistant message after the
  stream request; otherwise the stream request is the only request of the turn.
\<close>

theorem text_round_trip:
  assumes "ensure_conversation E w = (convId, (s1, tr1))"
      and "\<not> isImageCommand c"
      and "chat_begin E c (s1, tr1) = (s4, tr2)"
      and "fst (stream_run P E (stream_request convId s4) tr2) = [ev_Hel, ev_lo, ev_done]"
  shows "\<exists>s' tr'. sendMessage P E c w = (Inr (), (s', tr'))
           \<and> \<not> isStreaming s'
           \<and> messages s' = messages s1 @
                [\<lparr>role = User, content = c, image_b64 = None, createdAt = Some (Date_now E tr1)\<rparr>,
                 \<lparr>role = Assistant, content = js ''Hello'', image_b64 = None,
                  createdAt = Some (Date_now E tr2)\<rparr>]
           \<and> requests tr' = requests (snd w) @
                (if falsy_id (currentConversationId s1)
                 then [stream_call E (stream_request convId s4)]
                 else [Api_addMessage (the (currentConversationId s1)) User c None,
                       stream_call E (stream_request convId s4),
                       Api_addMessage (the (currentConversationId s1)) Assistant (js ''Hello'') None])"
proof -
  obtain s tr where w: "w = (s, tr)" by (cases w)
  note cb = chat_begin_result [OF assms(3)]
  obtain fin tr_end where
    sr: "stream_run P E (stream_request convId s4) tr2 = ([ev_Hel, ev_lo, ev_done], fin, tr_end)"
    using assms(4) by (cases "stream_run P E (stream_request convId s4) tr2") auto
  let ?u = "\<lparr>role = User, content = c, image_b64 = None, createdAt = Some (Date_now E tr1)\<rparr>"
  let ?a = "\<lparr>role = Assistant, content = [], image_b64 = None, createdAt = Some (Date_now E tr2)\<rparr>"
  have ms4: "messages s4 = (messages s1 @ [?u]) @ [?a]" using cb(1) by simp
  have hello: "js ''Hello'' = js ''Hel'' @ js ''lo''" by (simp add: js_def)
  have cs: "consume [ev_Hel, ev_lo, ev_done] fin s4 [] =
              (Inr (js ''Hello''), s4\<lparr>messages := (messages s1 @ [?u]) @ [?a\<lparr>content := js ''Hello''\<rparr>]\<rparr>)"
    using appendToLastMessage_snoc [OF ms4, of "js ''Hel''"]
    by (simp add: ev_Hel_def ev_lo_def ev_done_def truthy_def hello appendToLastMessage_snoc)
  have ne: "js ''Hello'' \<noteq> []" by (simp add: js_def)
  from chat_turn_result [OF assms(3) sr cs] ne cb(3)
  obtain s' tr' where
    r: "chat_turn P E c convId (s1, tr1) = (Inr (), (s', tr'))" "\<not> isStreaming s'"
       "messages s' = (messages s1 @ [?u]) @ [?a\<lparr>content := js ''Hello''\<rparr>]"
       "requests tr' = requests tr2 @ stream_call E (stream_request convId s4) #
          (if \<not> falsy_id (currentConversationId s1)
           then [Api_addMessage (the (currentConversationId s1)) Assistant (js ''Hello'') None]
           else [])"
    by auto
  from ensure_conversation_frame [OF assms(1) [unfolded w]] have "requests tr1 = requests tr"
    by simp
  with r cb(4) w sendMessage_text_path [OF assms(1,2), of P] show ?thesis
    by simp
qed

theorem text_round_trip_witness:
  "ensure_conversation canned_env (with_conversation 3, []) = (Some 3, (with_conversation 3, []))
   \<and> \<not> isImageCommand (js ''hi'')
   \<and> fst (stream_run sample_platform canned_env (stream_request (Some 3) (fst hi_canned))
             (snd hi_canned)) = [ev_Hel, ev_lo, ev_done]
   \<and> \<not> falsy_id (currentConversationId (with_conversation 3))
   \<and> (case sendMessage sample_platform canned_env (js ''hi'') (with_conversation 3, []) of
        (r, s', tr') \<Rightarrow>
          r = Inr () \<and> \<not> isStreaming s'
          \<and> map (\<lambda>m. (role m, content m)) (messages s') = [(User, js ''hi''), (Assistant, js ''Hello'')]
          \<and> requests tr' =
                [Api_addMessage 3 User (js ''hi'') None,
                 Fetch_stream None [(User, js ''hi'')] (js ''llama-3.3-70b-versatile'') (Some (js ''3'')),
                 Api_addMessage 3 Assistant (js ''Hello'') None])"
proof -
  have h1: "ensure_conversation canned_env (with_conversation 3, []) = (Some 3, (with_conversation 3, []))"
    by code_simp
  have h2: "\<not> isImageCommand (js ''hi'')"
    by code_simp
  have h3: "chat_begin canned_env (js ''hi'') (with_conversation 3, []) = (fst hi_canned, snd hi_canned)"
    by (simp add: hi_canned_def)
  have h4: "fst (stream_run sample_platform canned_env (stream_request (Some 3) (fst hi_canned))
             (snd hi_canned)) = [ev_Hel, ev_lo, ev_done]"
    by code_simp
  have h5: "\<not> falsy_id (currentConversationId (with_conversation 3))"
    by code_simp
  have ev: "case sendMessage sample_platform canned_env (js ''hi'') (with_conversation 3, []) of
        (r, s', tr') \<Rightarrow>
          r = Inr () \<and> \<not> isStreaming s'
          \<and> map (\<lambda>m. (role m, content m)) (messages s') = [(User, js ''hi''), (Assistant, js ''Hello'')]
          \<and> requests tr' =
                [Api_addMessage 3 User (js ''hi'') None,
                 Fetch_stream None [(User, js ''hi'')] (js ''llama-3.3-70b-versatile'') (Some (js ''3'')),
                 Api_addMessage 3 Assistant (js ''Hello'') None]"
    by code_simp
  from text_round_trip [OF h1 h2 h3 h4] h1 h2 h4 h5 ev
  show ?thesis by simp
qed

subsection \<open>The image command\<close>

lemma imagine_begin_result:
  assumes "imagine_begin E c (s1, tr1) = (s4, tr2)"
  shows "messages s4 = messages s1 @
           [\<lparr>role = User, content = c, image_b64 = None, createdAt = Some (Date_now E tr1)\<rparr>,
            \<lparr>role = Assistant, content = generating_text, image_b64 = None,
             createdAt = Some (Date_now E tr2)\<rparr>]"
    and "isStreaming s4"
    and "currentConversationId s4 = currentConversationId s1"
    and "requests tr2 = requests tr1 @
           (if falsy_id (currentConversationId s1) then []
            else [Api_addMessage (the (currentConversationId s1)) User c None])"
proof -
  let ?u = "\<lparr>role = User, content = c, image_b64 = None, createdAt = Some (Date_now E tr1)\<rparr>"
  obtain r2 s2 t2 where sv: "saveMessage E ?u (addMessage ?u s1, tr1) = (r2, (s2, t2))"
    by (cases "saveMessage E ?u (addMessage ?u s1, tr1)") auto
  from saveMessage_frame [OF sv]
  have f: "same_chat (addMessage ?u s1) s2"
          "requests t2 = requests tr1 @
             (if falsy_id (currentConversationId (addMessage ?u s1)) then []
              else [Api_addMessage (the (currentConversationId (addMessage ?u s1))) User c None])"
    by simp_all
  from assms sv have s4: "s4 = setIsStreaming True (addMessage \<lparr>role = Assistant,
                              content = generating_text,
                              image_b64 = None, createdAt = Some (Date_now E t2)\<rparr> s2)"
    and t: "tr2 = t2"
    by (auto simp: imagine_begin_def Let_def)
  show "messages s4 = messages s1 @
           [?u, \<lparr>role = Assistant, content = generating_text, image_b64 = None,
                 createdAt = Some (Date_now E tr2)\<rparr>]"
    using f(1) by (simp add: s4 t same_chat_def addMessage_def setIsStreaming_def)
  show "isStreaming s4" by (simp add: s4 setIsStreaming_def addMessage_def)
  show "currentConversationId s4 = currentConversationId s1"
    using f(1) by (simp add: s4 same_chat_def addMessage_def setIsStreaming_def)
  show "requests tr2 = requests tr1 @
           (if falsy_id (currentConversationId s1) then []
            else [Api_addMessage (the (currentConversationId s1)) User c None])"
    using f(2) by (simp add: t addMessage_def)
qed

lemma generateImage_trace:
  "generateImage E p tr = (r, tr') \<Longrightarrow> tr' = tr @ [Fetch_image (authorization E) p]"
  by (auto simp: generateImage_def Let_def split: sum.splits image_http_response.splits)

lemma updateLastMessage_snoc:
  "messages s = ms @ [m] \<Longrightarrow> updateLastMessage c s = s\<lparr>messages := ms @ [m\<lparr>content := c\<rparr>]\<rparr>"
  by (simp add: updateLastMessage_def Let_def nth_append)

lemma setLastMessageImage_snoc:
  "messages s = ms @ [m] \<Longrightarrow>
   setLastMessageImage i s = s\<lparr>messages := ms @ [m\<lparr>image_b64 := Some i\<rparr>]\<rparr>"
  by (simp add: setLastMessageImage_def Let_def nth_append)

lemma imagine_a_cat:
  "isImageCommand (js ''/imagine a cat'')"
  "trim (replace_imagine (js ''/imagine a cat'')) = js ''a cat''"
  by code_simp+

lemma heres_your_image_prefix:
  "startsWith (heres_your_image p) ([0x2728] @ js '' Here's your image for:'')"
  by (simp add: heres_your_image_def startsWith_def js_def)

text \<open>
  Claim C6. For the input \<open>/imagine a cat\<close>, with a conversation active or created in
  the first step and a generation call that succeeds: before the generation request
  the messages end with the user message, whose content is the input as typed, and the
  placeholder; \<open>sendMessage\<close> resolves with that placeholder holding the text that
  starts with the sparkles and \<open>Here's your image for:\<close> and the image of the
  generation response; the requests of the turn are the save of the user message, the
  generation request for \<open>a cat\<close>, and the save of the final assistant message with
  its image.
\<close>

theorem image_command_turn:
  assumes "ensure_conversation E w = (convId, (s1, tr1))"
      and "currentConversationId s1 = Some cid" and "cid \<noteq> 0"
      and "imagine_begin E (js ''/imagine a cat'') (s1, tr1) = (s4, tr2)"
      and "fst (generateImage E (js ''a cat'') tr2) = Inr result"
  shows "\<exists>s' tr'. sendMessage P E (js ''/imagine a cat'') w = (Inr (), (s', tr'))
           \<and> messages s4 = messages s1 @
                [\<lparr>role = User, content = js ''/imagine a cat'', image_b64 = None,
                  createdAt = Some (Date_now E tr1)\<rparr>,
                 \<lparr>role = Assistant, content = generating_text, image_b64 = None,
                  createdAt = Some (Date_now E tr2)\<rparr>]
           \<and> messages s' = messages s1 @
                [\<lparr>role = User, content = js ''/imagine a cat'', image_b64 = None,
                  createdAt = Some (Date_now E tr1)\<rparr>,
                 \<lparr>role = Assistant, content = heres_your_image (js ''a cat''),
                  image_b64 = Some (resp_image result), createdAt = Some (Date_now E tr2)\<rparr>]
           \<and> startsWith (heres_your_image (js ''a cat'')) ([0x2728] @ js '' Here's your image for:'')
           \<and> \<not> isStreaming s'
           \<and> requests tr' = requests (snd w) @
                [Api_addMessage cid User (js ''/imagine a cat'') None,
                 Fetch_image (authorization E) (js ''a cat''),
                 Api_addMessage cid Assistant (heres_your_image (js ''a cat''))
                   (Some (resp_image result))]"
proof -
  obtain s tr where w: "w = (s, tr)" by (cases w)
  let ?c = "js ''/imagine a cat''"
  let ?u = "\<lparr>role = User, content = ?c, image_b64 = None, createdAt = Some (Date_now E tr1)\<rparr>"
  let ?p = "\<lparr>role = Assistant, content = generating_text, image_b64 = None,
             createdAt = Some (Date_now E tr2)\<rparr>"
  note ib = imagine_begin_result [OF assms(4)]
  have ms4: "messages s4 = (messages s1 @ [?u]) @ [?p]" using ib(1) by simp
  obtain tr3 where gi: "generateImage E (js ''a cat'') tr2 = (Inr result, tr3)"
    using assms(5) by (cases "generateImage E (js ''a cat'') tr2") auto
  have rq3: "requests tr3 = requests tr2 @ [Fetch_image (authorization E) (js ''a cat'')]"
    using generateImage_trace [OF gi] by simp
  let ?a = "\<lparr>role = Assistant, content = heres_your_image (js ''a cat''),
             image_b64 = Some (resp_image result), createdAt = Some (Date_now E tr3)\<rparr>"
  let ?s5 = "updateLastMessage (content ?a) s4"
  let ?s6 = "setLastMessageImage (resp_image result) ?s5"
  have s5: "?s5 = s4\<lparr>messages := (messages s1 @ [?u]) @ [?p\<lparr>content := heres_your_image (js ''a cat'')\<rparr>]\<rparr>"
    using updateLastMessage_snoc [OF ms4] by simp
  then have "messages ?s5 = (messages s1 @ [?u]) @ [?p\<lparr>content := heres_your_image (js ''a cat'')\<rparr>]"
    by simp
  from setLastMessageImage_snoc [OF this] s5
  have s6: "?s6 = s4\<lparr>messages := (messages s1 @ [?u]) @
                   [?p\<lparr>content := heres_your_image (js ''a cat''), image_b64 := Some (resp_image result)\<rparr>]\<rparr>"
    by simp
  obtain r7 s7 tr7 where sv: "saveMessage E ?a (?s6, tr3) = (r7, (s7, tr7))"
    by (cases "saveMessage E ?a (?s6, tr3)") auto
  from saveMessage_frame [OF sv] s6 ib(3) assms(2,3) rq3
  have f7: "messages s7 = messages ?s6"
           "requests tr7 = requests tr2 @
              [Fetch_image (authorization E) (js ''a cat''),
               Api_addMessage cid Assistant (heres_your_image (js ''a cat'')) (Some (resp_image result))]"
    by (simp_all add: same_chat_def falsy_id_def)
  have ne: "js ''a cat'' \<noteq> []" by (simp add: js_def)
  have turn: "imagine_turn E ?c (s1, tr1) = (Inr (), (setIsStreaming False s7, tr7))"
    using assms(4) gi sv ne by (simp add: imagine_turn_def imagine_a_cat Let_def)
  have "sendMessage P E ?c w = (Inr (), (setIsStreaming False s7, tr7))"
    using assms(1) turn by (simp add: sendMessage_def imagine_a_cat)
  moreover have "requests tr1 = requests tr"
    using ensure_conversation_frame [OF assms(1) [unfolded w]] by simp
  ultimately show ?thesis
    using f7 s6 ib(1,4) w assms(2,3) heres_your_image_prefix [of "js ''a cat''"]
    by (simp add: setIsStreaming_def falsy_id_def)
qed

theorem image_command_turn_witness:
  "ensure_conversation canned_env (with_conversation 3, []) = (Some 3, (with_conversation 3, []))
   \<and> currentConversationId (with_conversation 3) = Some 3 \<and> (3::nat) \<noteq> 0
   \<and> fst (generateImage canned_env (js ''a cat'') (snd cat_begin)) = Inr cat_image
   \<and> map (\<lambda>m. (role m, content m)) (messages (fst cat_begin))
       = [(User, js ''/imagine a cat''), (Assistant, generating_text)]
   \<and> (case sendMessage sample_platform canned_env (js ''/imagine a cat'') (with_conversation 3, []) of
        (r, s', tr') \<Rightarrow>
          r = Inr () \<and> \<not> isStreaming s'
          \<and> map (\<lambda>m. (role m, content m, image_b64 m)) (messages s')
              = [(User, js ''/imagine a cat'', None),
                 (Assistant, heres_your_image (js ''a cat''), Some (resp_image cat_image))]
          \<and> requests tr' =
                [Api_addMessage 3 User (js ''/imagine a cat'') None,
                 Fetch_image None (js ''a cat''),
                 Api_addMessage 3 Assistant (heres_your_image (js ''a cat''))
                   (Some (resp_image cat_image))])"
proof -
  have h1: "ensure_conversation canned_env (with_conversation 3, []) = (Some 3, (with_conversation 3, []))"
    by code_simp
  have h2: "currentConversationId (with_conversation 3) = Some 3"
    by code_simp
  have h3: "(3::nat) \<noteq> 0"
    by simp
  have h4: "imagine_begin canned_env (js ''/imagine a cat'') (with_conversation 3, [])
              = (fst cat_begin, snd cat_begin)"
    by (simp add: cat_begin_def)
  have h5: "fst (generateImage canned_env (js ''a cat'') (snd cat_begin)) = Inr cat_image"
    by code_simp
  have ev1: "map (\<lambda>m. (role m, content m)) (messages (fst cat_begin))
       = [(User, js ''/imagine a cat''), (Assistant, generating_text)]"
    by code_simp
  have ev2: "case sendMessage sample_platform canned_env (js ''/imagine a cat'') (with_conversation 3, []) of
        (r, s', tr') \<Rightarrow>
          r = Inr () \<and> \<not> isStreaming s'
          \<and> map (\<lambda>m. (role m, content m, image_b64 m)) (messages s')
              = [(User, js ''/imagine a cat'', None),
                 (Assistant, heres_your_image (js ''a cat''), Some (resp_image cat_image))]
          \<and> requests tr' =
                [Api_addMessage 3 User (js ''/imagine a cat'') None,
                 Fetch_image None (js ''a cat''),
                 Api_addMessage 3 Assistant (heres_your_image (js ''a cat''))
                   (Some (resp_image cat_image))]"
    by code_simp
  from image_command_turn [OF h1 h2 h3 h4 h5, of sample_platform] h1 h2 h5 ev1 ev2
  show ?thesis by simp
qed

subsection \<open>The image command without a prompt\<close>

lemma whitespace_not_upper: "is_whitespace u \<Longrightarrow> lower_unit u = u"
  unfolding is_whitespace_def lower_unit_def
  by (auto simp: word_le_def word_less_def)

lemma not_whitespace_slash: "lower_unit u = 0x2F \<Longrightarrow> \<not> is_whitespace u"
  using whitespace_not_upper [of u] by (auto simp: is_whitespace_def)

lemma not_whitespace_e: "lower_unit u = 0x65 \<Longrightarrow> \<not> is_whitespace u"
  using whitespace_not_upper [of u] by (auto simp: is_whitespace_def)

lemma js_imagine: "js ''/imagine'' = [0x2F, 0x69, 0x6D, 0x61, 0x67, 0x69, 0x6E, 0x65]"
  by (simp add: js_def)

lemma command_only:
  assumes "map lower_unit (take 8 c) = js ''/imagine''" and "list_all is_whitespace (drop 8 c)"
  shows "isImageCommand c" and "trim (replace_imagine c) = []"
proof -
  from assms(1) obtain u0 u1 u2 u3 u4 u5 u6 u7 where
    t8: "take 8 c = [u0, u1, u2, u3, u4, u5, u6, u7]"
    and lo: "lower_unit u0 = 0x2F" "lower_unit u7 = 0x65"
    unfolding js_imagine by (auto simp: map_eq_Cons_conv)
  have c: "c = [u0, u1, u2, u3, u4, u5, u6, u7] @ drop 8 c"
    using append_take_drop_id [of 8 c] t8 by simp
  have n0: "\<not> is_whitespace u0" and n7: "\<not> is_whitespace u7"
    using lo by (simp_all add: not_whitespace_slash not_whitespace_e)
  from c obtain rest where "c = u0 # rest" by (cases c) auto
  with n0 have d1: "dropWhile is_whitespace c = c" by simp
  have "dropWhile is_whitespace (rev c)
          = dropWhile is_whitespace (rev (drop 8 c) @ rev [u0, u1, u2, u3, u4, u5, u6, u7])"
    by (subst c) simp
  also have "\<dots> = dropWhile is_whitespace (rev [u0, u1, u2, u3, u4, u5, u6, u7])"
    using assms(2) by (intro dropWhile_append2) (simp add: list_all_iff)
  also have "\<dots> = rev [u0, u1, u2, u3, u4, u5, u6, u7]"
    using n7 by simp
  finally have tr: "trim c = take 8 c"
    by (simp add: trim_def d1 t8)
  show "isImageCommand c"
    using assms(1) by (simp add: isImageCommand_def tr toLowerCase_def startsWith_def js_imagine)
  have dw: "dropWhile is_whitespace (drop 8 c) = []"
    using assms(2) by (simp add: list_all_iff)
  have "replace_imagine c = []"
    unfolding replace_imagine_def by (simp only: assms(1) dw refl if_True)
  then show "trim (replace_imagine c) = []"
    by (simp add: trim_def)
qed







text \<open>
  The conditions on the input are exactly those under which the source takes the
  branch of the warning.
\<close>

lemma trim_empty_iff: "trim t = [] \<longleftrightarrow> list_all is_whitespace t"
proof
  assume "list_all is_whitespace t"
  then have d: "dropWhile is_whitespace t = []" by (simp add: list_all_iff)
  show "trim t = []" unfolding trim_def d by simp
next
  assume e: "trim t = []"
  show "list_all is_whitespace t"
  proof (rule ccontr)
    assume "\<not> list_all is_whitespace t"
    then have ne: "dropWhile is_whitespace t \<noteq> []"
      by (auto simp: list_all_iff dropWhile_eq_Nil_conv)
    then have "\<not> is_whitespace (hd (dropWhile is_whitespace t))"
      by (rule hd_dropWhile)
    moreover have "hd (dropWhile is_whitespace t) \<in> set (rev (dropWhile is_whitespace t))"
      using ne by simp
    ultimately have "dropWhile is_whitespace (rev (dropWhile is_whitespace t)) \<noteq> []"
      by auto
    with e show False by (simp add: trim_def)
  qed
qed

lemma usage_warning_branch_iff:
  "isImageCommand c \<and> trim (replace_imagine c) = []
     \<longleftrightarrow> toLowerCase (take 8 c) = js ''/imagine'' \<and> list_all is_whitespace (drop 8 c)"
proof
  assume "toLowerCase (take 8 c) = js ''/imagine'' \<and> list_all is_whitespace (drop 8 c)"
  then show "isImageCommand c \<and> trim (replace_imagine c) = []"
    using command_only [of c] by (simp add: toLowerCase_def)
next
  assume a: "isImageCommand c \<and> trim (replace_imagine c) = []"
  show "toLowerCase (take 8 c) = js ''/imagine'' \<and> list_all is_whitespace (drop 8 c)"
  proof (cases "map lower_unit (take 8 c) = js ''/imagine''")
    case True
    with a have "trim (dropWhile is_whitespace (drop 8 c)) = []"
      by (simp add: replace_imagine_def)
    then have "list_all is_whitespace (dropWhile is_whitespace (drop 8 c))"
      by (simp add: trim_empty_iff)
    then have "dropWhile is_whitespace (drop 8 c) = []"
      by (metis dropWhile_eq_Nil_conv dropWhile_idem list_all_iff)
    then have "list_all is_whitespace (drop 8 c)"
      by (simp add: list_all_iff)
    with True show ?thesis by (simp add: toLowerCase_def)
  next
    case False
    with a have "trim c = []" by (simp add: replace_imagine_def)
    with a show ?thesis
      by (simp add: isImageCommand_def toLowerCase_def startsWith_def js_imagine)
  qed
qed



text \<open>
  \<open>sendMessage\<close> is called by the input box, with \<open>value.trim()\<close>, and with the fixed
  texts of the suggestions. Trimmed text in which the command is detected begins with
  it, and typed text whose trimmed form is the command alone is passed as such.
\<close>

lemma detected_in_trimmed:
  "isImageCommand v \<Longrightarrow> toLowerCase (take 8 (trim v)) = js ''/imagine''"
proof -
  assume "isImageCommand v"
  moreover have "length (js ''/imagine'') = 8"
    by (simp add: js_def)
  ultimately show ?thesis
    by (simp only: isImageCommand_def startsWith_def toLowerCase_def take_map)
qed

lemma submitted_command:
  assumes "toLowerCase (trim v) = js ''/imagine''"
  shows "toLowerCase (take 8 (trim v)) = js ''/imagine''"
    and "list_all is_whitespace (drop 8 (trim v))"
proof -
  have "length (toLowerCase (trim v)) = 8"
    unfolding assms by (simp add: js_def)
  then have l: "length (trim v) = 8"
    by (simp add: toLowerCase_def)
  from l assms show "toLowerCase (take 8 (trim v)) = js ''/imagine''"
    by simp
  from l show "list_all is_whitespace (drop 8 (trim v))"
    by simp
qed

text \<open>
  Text with white space before the command is outside these conditions, and no caller
  passes it. There the detection, made on the trimmed text, succeeds, while the pattern
  of the extraction, anchored at the start of the text as passed, does not match: the
  whole trimmed text is taken as the prompt.
\<close>

lemma imagine_after_leading_space:
  "isImageCommand (js '' /imagine'')
   \<and> trim (replace_imagine (js '' /imagine'')) = js ''/imagine''
   \<and> (case sendMessage sample_platform canned_env (js '' /imagine'') (with_conversation 3, []) of
        (r, s', tr') \<Rightarrow>
          map (\<lambda>m. (role m, content m)) (messages s')
            = [(User, js '' /imagine''), (Assistant, heres_your_image (js ''/imagine''))]
          \<and> requests tr' =
                [Api_addMessage 3 User (js '' /imagine'') None,
                 Fetch_image None (js ''/imagine''),
                 Api_addMessage 3 Assistant (heres_your_image (js ''/imagine''))
                   (Some (resp_image cat_image))])"
  by code_simp

subsection \<open>A turn without a conversation\<close>

lemma saves_requests: "saves tr = filter is_save (requests tr)"
  by (induction tr) (auto simp: saves_def requests_def is_save_def is_request_def split: call.splits)

lemma saveMessage_null:
  "currentConversationId s = None \<Longrightarrow> saveMessage E m (s, tr) = (Inr (), (s, tr))"
  by (simp add: saveMessage_def falsy_id_def)

lemma imagine_turn_without_conversation:
  assumes "currentConversationId s1 = None"
  shows "\<exists>s' tr'. imagine_turn E c (s1, tr1) = (Inr (), (s', tr'))
           \<and> currentConversationId s' = None \<and> saves tr' = saves tr1"
proof (cases "trim (replace_imagine c) = []")
  case True
  then show ?thesis
    using assms by (simp add: imagine_turn_def addMessage_def)
next
  case False
  obtain s4 tr2 where ib: "imagine_begin E c (s1, tr1) = (s4, tr2)"
    by (cases "imagine_begin E c (s1, tr1)")
  from imagine_begin_result [OF ib] assms
  have c4: "currentConversationId s4 = None" and r2: "requests tr2 = requests tr1"
    by (simp_all add: falsy_id_def)
  obtain r3 tr3 where gi: "generateImage E (trim (replace_imagine c)) tr2 = (r3, tr3)"
    by (cases "generateImage E (trim (replace_imagine c)) tr2")
  from generateImage_trace [OF gi] r2
  have s3: "saves tr3 = saves tr1"
    by (simp add: saves_requests is_save_def)
  show ?thesis
  proof (cases r3)
    case (Inl e)
    with False ib gi c4 s3 show ?thesis
      by (simp add: imagine_turn_def Let_def setIsStreaming_def updateLastMessage_def
                    saves_requests)
  next
    case (Inr result)
    let ?s6 = "setLastMessageImage (resp_image result)
                 (updateLastMessage (heres_your_image (trim (replace_imagine c))) s4)"
    have c6: "currentConversationId ?s6 = None"
      using c4 by (simp add: setLastMessageImage_def updateLastMessage_def Let_def)
    from Inr False ib gi saveMessage_null [OF c6] c6 s3 show ?thesis
      by (simp add: imagine_turn_def Let_def setIsStreaming_def)
  qed
qed

text \<open>
  Claim C7. With no active conversation and a failing \<open>createConversation\<close>,
  \<open>sendMessage\<close> still resolves, on every input: the conversation id stays \<open>null\<close>
  and no message is saved during the turn. On the text path the user message and the
  assistant placeholder are added to the local messages, and the only request of the
  turn is the stream request, sent with a \<open>null\<close> conversation identifier.
\<close>

theorem best_effort_turn:
  assumes "currentConversationId s = None"
      and "fst (createConversation E (s, tr)) = Inl e"
  shows "\<exists>s' tr'. sendMessage P E c (s, tr) = (Inr (), (s', tr'))
           \<and> currentConversationId s' = None
           \<and> saves tr' = saves tr
           \<and> (\<not> isImageCommand c \<longrightarrow>
                (\<exists>u a. messages s' = messages s @ [u, a]
                        \<and> role u = User \<and> content u = c \<and> role a = Assistant)
                \<and> requests tr' = requests tr @
                     [Fetch_stream (authorization E)
                        (map (\<lambda>m. (role m, content m)) (messages s) @ [(User, c)])
                        (js ''llama-3.3-70b-versatile'') None])"
proof (cases "isImageCommand c")
  case False
  from best_effort_text_path [OF assms False, of P] obtain s' tr' u a where
    r: "sendMessage P E c (s, tr) = (Inr (), (s', tr'))" "messages s' = messages s @ [u, a]"
       "role u = User" "content u = c" "role a = Assistant" "currentConversationId s' = None"
       "requests tr' = requests tr @
          [Fetch_stream (authorization E)
             (map (\<lambda>m. (role m, content m)) (messages s) @ [(User, c)])
             (js ''llama-3.3-70b-versatile'') None]"
    by blast
  from r(7) have "saves tr' = saves tr"
    by (simp add: saves_requests is_save_def)
  with r show ?thesis by blast
next
  case True
  obtain s0 tr0 where cc: "createConversation E (s, tr) = (Inl e, (s0, tr0))"
    using assms(2) by (cases "createConversation E (s, tr)") auto
  from createConversation_frame [OF cc] assms(1)
  have f0: "requests tr0 = requests tr" "currentConversationId s0 = None"
    by simp_all
  have ens: "ensure_conversation E (s, tr)
               = (None, (s0, tr0 @ [Console_error (js ''Failed to create conversation:'')]))"
    using assms(1) cc by (simp add: ensure_conversation_def falsy_id_def)
  from imagine_turn_without_conversation [OF f0(2), of E c
         "tr0 @ [Console_error (js ''Failed to create conversation:'')]"]
  obtain s' tr' where
    "imagine_turn E c (s0, tr0 @ [Console_error (js ''Failed to create conversation:'')])
       = (Inr (), (s', tr'))"
    "currentConversationId s' = None"
    "saves tr' = saves (tr0 @ [Console_error (js ''Failed to create conversation:'')])"
    by blast
  with True ens f0 show ?thesis
    by (simp add: sendMessage_def saves_requests)
qed

theorem best_effort_turn_witness:
  "currentConversationId initial_state = None
   \<and> fst (createConversation storage_down_env (initial_state, [])) = Inl network_error
   \<and> \<not> isImageCommand (js ''hi'')
   \<and> (case sendMessage sample_platform storage_down_env (js ''hi'') (initial_state, []) of
        (r, s', tr') \<Rightarrow>
          r = Inr ()
          \<and> map (\<lambda>m. (role m, content m)) (messages s') = [(User, js ''hi''), (Assistant, js ''Hello'')]
          \<and> currentConversationId s' = None
          \<and> saves tr' = []
          \<and> requests tr' =
                [Fetch_stream None [(User, js ''hi'')] (js ''llama-3.3-70b-versatile'') None])"
proof -
  have h1: "currentConversationId initial_state = None"
    by (simp add: initial_state_def)
  have h2: "fst (createConversation storage_down_env (initial_state, [])) = Inl network_error"
    by code_simp
  have h3: "\<not> isImageCommand (js ''hi'')"
    by code_simp
  have ev: "case sendMessage sample_platform storage_down_env (js ''hi'') (initial_state, []) of
        (r, s', tr') \<Rightarrow>
          r = Inr ()
          \<and> map (\<lambda>m. (role m, content m)) (messages s') = [(User, js ''hi''), (Assistant, js ''Hello'')]
          \<and> currentConversationId s' = None
          \<and> saves tr' = []
          \<and> requests tr' =
                [Fetch_stream None [(User, js ''hi'')] (js ''llama-3.3-70b-versatile'') None]"
    by code_simp
  from best_effort_turn [OF h1 h2, of sample_platform "js ''hi''"] h1 h2 h3 ev
  show ?thesis by simp
qed

end
